theory Spec2Isabelle
  imports Main "HOL-Library.AList"
begin

section \<open>Regular expressions as the classifier uses them\<close>

text \<open>
  The indicator patterns of \<^verbatim>\<open>ThreatHunter.ioc_patterns\<close> are Python regular
  expressions, applied with \<^verbatim>\<open>re.match\<close>. They are embedded as syntax trees: a
  character class is a list of items, a bounded repetition is unfolded into sequences and
  alternatives. Strings are lists of 8-bit characters; \<^verbatim>\<open>\s\<close> is the set of
  characters below 256 that Python's Unicode \<^verbatim>\<open>\s\<close> accepts.
\<close>

datatype citem = Ch char | Rng char char | Space

definition is_space :: "char \<Rightarrow> bool" where
  "is_space c = (let n = (of_char c :: nat) in
     (9 \<le> n \<and> n \<le> 13) \<or> (28 \<le> n \<and> n \<le> 32) \<or> n = 133 \<or> n = 160)"

fun item_match :: "citem \<Rightarrow> char \<Rightarrow> bool" where
  "item_match (Ch x) c = (c = x)"
| "item_match (Rng lo hi) c =
     ((of_char lo :: nat) \<le> of_char c \<and> (of_char c :: nat) \<le> of_char hi)"
| "item_match Space c = is_space c"

definition in_class :: "citem list \<Rightarrow> char \<Rightarrow> bool" where
  "in_class items c = list_ex (\<lambda>i. item_match i c) items"

datatype rexp =
    Eps
  | Lit char
  | AnyChar
  | OneOf "citem list"
  | NoneOf "citem list"
  | Seq rexp rexp
  | Alt rexp rexp
  | Star rexp

text \<open>
  \<open>re_rests r s\<close> lists, in the order a backtracking matcher tries them, the rests of
  \<open>s\<close> after each way of matching \<open>r\<close> at the start of \<open>s\<close>. An iteration of a
  star that consumes nothing is not repeated, as in Python's engine.
\<close>

fun atom_rests :: "(char \<Rightarrow> bool) \<Rightarrow> string \<Rightarrow> string list" where
  "atom_rests P [] = []"
| "atom_rests P (c # cs) = (if P c then [cs] else [])"

fun re_rests :: "rexp \<Rightarrow> string \<Rightarrow> string list" where
  "re_rests Eps s = [s]"
| "re_rests (Lit x) s = atom_rests (\<lambda>c. c = x) s"
| "re_rests AnyChar s = atom_rests (\<lambda>c. c \<noteq> CHR 0x0A) s"
| "re_rests (OneOf items) s = atom_rests (in_class items) s"
| "re_rests (NoneOf items) s = atom_rests (\<lambda>c. \<not> in_class items c) s"
| "re_rests (Seq a b) s = concat (map (re_rests b) (re_rests a s))"
| "re_rests (Alt a b) s = re_rests a s @ re_rests b s"
| "re_rests (Star a) s =
     concat (map (re_rests (Star a)) (filter (\<lambda>t. length t < length s) (re_rests a s))) @ [s]"

text \<open>\<open>r{n}\<close>, \<open>r{0,n}\<close>, \<open>r?\<close>, \<open>r+\<close>, \<open>r{n,}\<close> and a literal string.\<close>

primrec rep :: "nat \<Rightarrow> rexp \<Rightarrow> rexp" where
  "rep 0 r = Eps"
| "rep (Suc n) r = Seq r (rep n r)"

primrec rep_upto :: "nat \<Rightarrow> rexp \<Rightarrow> rexp" where
  "rep_upto 0 r = Eps"
| "rep_upto (Suc n) r = Alt (Seq r (rep_upto n r)) Eps"

definition optional :: "rexp \<Rightarrow> rexp" where
  "optional r = Alt r Eps"

definition one_or_more :: "rexp \<Rightarrow> rexp" where
  "one_or_more r = Seq r (Star r)"

definition rep_from :: "nat \<Rightarrow> rexp \<Rightarrow> rexp" where
  "rep_from n r = Seq (rep n r) (Star r)"

primrec lits :: "string \<Rightarrow> rexp" where
  "lits [] = Eps"
| "lits (c # cs) = Seq (Lit c) (lits cs)"

text \<open>
  \<^verbatim>\<open>re.match(pattern, s)\<close> for a pattern \<^verbatim>\<open>^r$\<close>: the match starts at the first
  character, and \<^verbatim>\<open>$\<close> holds at the end of the string and just before a newline that
  ends the string.
\<close>

definition re_match :: "rexp \<Rightarrow> string \<Rightarrow> bool" where
  "re_match r s = list_ex (\<lambda>t. t = [] \<or> t = [CHR 0x0A]) (re_rests r s)"

text \<open>The words of a regular expression, for reasoning about \<open>re_rests\<close>.\<close>

inductive_set star :: "string set \<Rightarrow> string set" for L :: "string set" where
  star_nil: "[] \<in> star L"
| star_app: "u \<in> L \<Longrightarrow> v \<in> star L \<Longrightarrow> u @ v \<in> star L"

fun lang :: "rexp \<Rightarrow> string set" where
  "lang Eps = {[]}"
| "lang (Lit x) = {[x]}"
| "lang AnyChar = {[c] | c. c \<noteq> CHR 0x0A}"
| "lang (OneOf items) = {[c] | c. in_class items c}"
| "lang (NoneOf items) = {[c] | c. \<not> in_class items c}"
| "lang (Seq a b) = {u @ v | u v. u \<in> lang a \<and> v \<in> lang b}"
| "lang (Alt a b) = lang a \<union> lang b"
| "lang (Star a) = star (lang a)"

text \<open>\<open>may r c\<close>: some atom of \<open>r\<close> accepts \<open>c\<close>. \<open>needs r c\<close>: every word of \<open>r\<close>
  has the literal \<open>c\<close>.\<close>

fun may :: "rexp \<Rightarrow> char \<Rightarrow> bool" where
  "may Eps c = False"
| "may (Lit x) c = (c = x)"
| "may AnyChar c = (c \<noteq> CHR 0x0A)"
| "may (OneOf items) c = in_class items c"
| "may (NoneOf items) c = (\<not> in_class items c)"
| "may (Seq a b) c = (may a c \<or> may b c)"
| "may (Alt a b) c = (may a c \<or> may b c)"
| "may (Star a) c = may a c"

fun needs :: "rexp \<Rightarrow> char \<Rightarrow> bool" where
  "needs (Lit x) c = (c = x)"
| "needs (Seq a b) c = (needs a c \<or> needs b c)"
| "needs (Alt a b) c = (needs a c \<and> needs b c)"
| "needs r c = False"

section \<open>The threat hunter (threat-hunting/app.py)\<close>

subsection \<open>Indicator patterns and classification\<close>

definition digit :: "citem list" where
  "digit = [Rng (CHR ''0'') (CHR ''9'')]"

definition alpha :: "citem list" where
  "alpha = [Rng (CHR ''a'') (CHR ''z''), Rng (CHR ''A'') (CHR ''Z'')]"

definition alnum :: "citem list" where
  "alnum = [Rng (CHR ''a'') (CHR ''z''), Rng (CHR ''A'') (CHR ''Z''), Rng (CHR ''0'') (CHR ''9'')]"

definition hex :: "citem list" where
  "hex = [Rng (CHR ''a'') (CHR ''f''), Rng (CHR ''A'') (CHR ''F''), Rng (CHR ''0'') (CHR ''9'')]"

text \<open>\<^verbatim>\<open>(?:25[0-5]|2[0-4][0-9]|[01]?[0-9][0-9]?)\<close>\<close>

definition octet_re :: rexp where
  "octet_re =
     Alt (Seq (lits ''25'') (OneOf [Rng (CHR ''0'') (CHR ''5'')]))
    (Alt (Seq (Lit (CHR ''2'')) (Seq (OneOf [Rng (CHR ''0'') (CHR ''4'')]) (OneOf digit)))
         (Seq (optional (OneOf [Ch (CHR ''0''), Ch (CHR ''1'')]))
              (Seq (OneOf digit) (optional (OneOf digit)))))"

text \<open>\<^verbatim>\<open>^(?:octet\.){3}octet$\<close>\<close>

definition ip_re :: rexp where
  "ip_re = Seq (rep 3 (Seq octet_re (Lit (CHR ''.'')))) octet_re"

text \<open>\<^verbatim>\<open>^(?:[a-zA-Z0-9](?:[a-zA-Z0-9-]{0,61}[a-zA-Z0-9])?\.)+[a-zA-Z]{2,}$\<close>\<close>

definition label_re :: rexp where
  "label_re =
     Seq (OneOf alnum)
         (optional (Seq (rep_upto 61 (OneOf (alnum @ [Ch (CHR ''-'')]))) (OneOf alnum)))"

definition domain_re :: rexp where
  "domain_re = Seq (one_or_more (Seq label_re (Lit (CHR ''.'')))) (rep_from 2 (OneOf alpha))"

text \<open>\<^verbatim>\<open>^[a-fA-F0-9]{32}$\<close>, \<^verbatim>\<open>{40}\<close>, \<^verbatim>\<open>{64}\<close>\<close>

definition md5_re :: rexp where
  "md5_re = rep 32 (OneOf hex)"

definition sha1_re :: rexp where
  "sha1_re = rep 40 (OneOf hex)"

definition sha256_re :: rexp where
  "sha256_re = rep 64 (OneOf hex)"

text \<open>\<^verbatim>\<open>^[a-zA-Z0-9._%+-]+@[a-zA-Z0-9.-]+\.[a-zA-Z]{2,}$\<close>\<close>

definition local_part :: "citem list" where
  "local_part =
     alnum @ [Ch (CHR ''.''), Ch (CHR ''_''), Ch (CHR ''%''), Ch (CHR ''+''), Ch (CHR ''-'')]"

definition email_re :: rexp where
  "email_re =
     Seq (one_or_more (OneOf local_part))
    (Seq (Lit (CHR ''@''))
    (Seq (one_or_more (OneOf (alnum @ [Ch (CHR ''.''), Ch (CHR ''-'')])))
    (Seq (Lit (CHR ''.''))
         (rep_from 2 (OneOf alpha)))))"

text \<open>\<^verbatim>\<open>^https?://[^\s/$.?#].[^\s]*$\<close>\<close>

definition url_first :: "citem list" where
  "url_first =
     [Space, Ch (CHR ''/''), Ch (CHR ''$''), Ch (CHR ''.''), Ch (CHR ''?''), Ch (CHR ''#'')]"

definition url_re :: rexp where
  "url_re =
     Seq (lits ''http'')
    (Seq (optional (Lit (CHR ''s'')))
    (Seq (lits ''://'')
    (Seq (NoneOf url_first)
    (Seq AnyChar
         (Star (NoneOf [Space]))))))"

text \<open>The dictionary \<^verbatim>\<open>ioc_patterns\<close>, in insertion order (the order of iteration).\<close>

definition ioc_patterns :: "(string \<times> rexp) list" where
  "ioc_patterns =
     [(''ip'', ip_re), (''domain'', domain_re), (''md5'', md5_re), (''sha1'', sha1_re),
      (''sha256'', sha256_re), (''email'', email_re), (''url'', url_re)]"

fun first_match :: "(string \<times> rexp) list \<Rightarrow> string \<Rightarrow> string" where
  "first_match [] ioc = ''unknown''"
| "first_match ((ioc_type, pattern) # ps) ioc =
     (if re_match pattern ioc then ioc_type else first_match ps ioc)"

definition detect_ioc_type :: "string \<Rightarrow> string" where
  "detect_ioc_type ioc = first_match ioc_patterns ioc"

subsection \<open>Query strings for indicators\<close>

definition build_ioc_query :: "string \<Rightarrow> string \<Rightarrow> string" where
  \<open>build_ioc_query ioc ioc_type =
     (if ioc_type = ''ip'' then
        ''(source.ip:"'' @ ioc @ ''" OR destination.ip:"'' @ ioc @ ''" OR client.ip:"'' @ ioc
          @ ''" OR server.ip:"'' @ ioc @ ''")''
      else if ioc_type = ''domain'' then
        ''(domain:"'' @ ioc @ ''" OR url.domain:"'' @ ioc @ ''" OR dns.question.name:"'' @ ioc
          @ ''")''
      else if ioc_type \<in> set [''md5'', ''sha1'', ''sha256''] then
        ''(file.hash.md5:"'' @ ioc @ ''" OR file.hash.sha1:"'' @ ioc @ ''" OR file.hash.sha256:"''
          @ ioc @ ''")''
      else if ioc_type = ''email'' then
        ''(email.from.address:"'' @ ioc @ ''" OR email.to.address:"'' @ ioc @ ''" OR user.email:"''
          @ ioc @ ''")''
      else if ioc_type = ''url'' then
        ''(url.original:"'' @ ioc @ ''" OR url.full:"'' @ ioc @ ''")''
      else
        ''"'' @ ioc @ ''"'')\<close>

subsection \<open>Search bodies, results and the collaborators\<close>

text \<open>
  A value in a query clause: \<open>IsoTime t\<close> is \<^verbatim>\<open>start_time.isoformat()\<close> for the
  naive UTC datetime \<open>t\<close>, counted in microseconds; \<open>QStr\<close> is a string and \<open>QNum\<close> a
  number.
\<close>

datatype qval = IsoTime int | QStr string | QNum int

datatype clause =
    QueryString string
  | Term string string
  | Range string "(string \<times> qval) list"

record search_body =
  must :: "clause list"
  should :: "clause list"
  size_limit :: int
  sort_keys :: "(string \<times> string) list"
  aggs :: "(string \<times> string \<times> int) list"

text \<open>
  A value of a document: a string, a number or an object. A hit carries its
  \<^verbatim>\<open>_source\<close> document; a response carries \<^verbatim>\<open>hits.total.value\<close> and
  \<^verbatim>\<open>hits.hits\<close>.
\<close>

datatype jval = JStr string | JNum int | JObj "(string \<times> jval) list"

record hit =
  source :: "(string \<times> jval) list"

record search_result =
  total_value :: int
  hits :: "hit list"

text \<open>
  Exceptions that the \<^verbatim>\<open>try\<close> blocks catch: one raised by the search client
  (with its text), a slice of a value that is no string, \<^verbatim>\<open>.get\<close> on a value that
  is no object, a missing key. An error payload \<^verbatim>\<open>{"error": ...}\<close> holds a fixed
  message or the text of a caught exception.
\<close>

datatype exn = ClientError string | SliceError | AttributeError | KeyError string

datatype error = Message string | Caught exn

text \<open>
  The environment of a request: the search client (\<^verbatim>\<open>None\<close> when the constructor
  failed at start-up) and the clock \<^verbatim>\<open>datetime.utcnow\<close>. Both act on a world
  \<open>'w\<close>, so that successive calls may answer differently. The client takes the index
  pattern and the body and returns a response or raises.
\<close>

type_synonym 'w client = "string \<Rightarrow> search_body \<Rightarrow> 'w \<Rightarrow> (string + search_result) \<times> 'w"

record 'w env =
  es :: "'w client option"
  utcnow :: "'w \<Rightarrow> int \<times> 'w"

definition hours :: "int \<Rightarrow> int" where
  "hours n = n * 3600000000"

definition days :: "int \<Rightarrow> int" where
  "days n = n * 86400000000"

definition time_sort :: "(string \<times> string) list" where
  "time_sort = [(''@timestamp'', ''desc'')]"

subsection \<open>The technique catalog and the technique hunt\<close>

record technique =
  t_name :: string
  t_query :: string
  t_description :: string

definition attack_patterns :: "(string \<times> technique) list" where
  \<open>attack_patterns =
    [(''T1078'', \<lparr>t_name = ''Valid Accounts'',
        t_query = ''event.category:authentication AND event.outcome:success AND user.name:("admin" OR "administrator" OR "root")'',
        t_description = ''Detect use of valid accounts for unauthorized access''\<rparr>),
     (''T1110'', \<lparr>t_name = ''Brute Force'',
        t_query = ''event.category:authentication AND event.outcome:failure'',
        t_description = ''Multiple failed authentication attempts''\<rparr>),
     (''T1059'', \<lparr>t_name = ''Command and Scripting Interpreter'',
        t_query = ''process.name:("cmd.exe" OR "powershell.exe" OR "bash" OR "sh") AND process.args:*'',
        t_description = ''Suspicious command line activity''\<rparr>),
     (''T1055'', \<lparr>t_name = ''Process Injection'',
        t_query = ''event.category:process AND process.name:("svchost.exe" OR "winlogon.exe" OR "lsass.exe")'',
        t_description = ''Potential process injection activity''\<rparr>),
     (''T1071'', \<lparr>t_name = ''Application Layer Protocol'',
        t_query = ''network.protocol:("http" OR "https" OR "dns") AND destination.port:(80 OR 443 OR 53)'',
        t_description = ''Suspicious network protocol usage''\<rparr>),
     (''T1105'', \<lparr>t_name = ''Ingress Tool Transfer'',
        t_query = ''file.extension:("exe" OR "dll" OR "bat" OR "ps1" OR "sh") AND file.path:*'',
        t_description = ''File transfers and tool deployment''\<rparr>)]\<close>

text \<open>
  \<^verbatim>\<open>_create_timeline\<close>: the dictionary is an association list in insertion order.
  A time stamp that is no string cannot be sliced, which raises.
\<close>

fun create_timeline_loop :: "hit list \<Rightarrow> (string \<times> int) list \<Rightarrow> exn + (string \<times> int) list" where
  "create_timeline_loop [] timeline = Inr timeline"
| "create_timeline_loop (h # rest) timeline =
     (case (case map_of (source h) ''@timestamp'' of None \<Rightarrow> JStr ''Unknown'' | Some v \<Rightarrow> v) of
        JStr timestamp \<Rightarrow>
          if timestamp \<noteq> ''Unknown'' then
            (let date_key = take 10 timestamp;
                 timeline1 = (if date_key \<notin> fst ` set timeline
                              then AList.update date_key 0 timeline else timeline)
             in case map_of timeline1 date_key of
                  None \<Rightarrow> Inl (KeyError date_key)
                | Some n \<Rightarrow> create_timeline_loop rest (AList.update date_key (n + 1) timeline1))
          else create_timeline_loop rest timeline
      | _ \<Rightarrow> Inl SliceError)"

definition create_timeline :: "hit list \<Rightarrow> exn + (string \<times> int) list" where
  "create_timeline hs = create_timeline_loop hs []"

definition mitre_search_body :: "technique \<Rightarrow> int \<Rightarrow> search_body" where
  "mitre_search_body tech start_time =
     \<lparr>must = [QueryString (t_query tech), Range ''@timestamp'' [(''gte'', IsoTime start_time)]],
      should = [],
      size_limit = 100,
      sort_keys = time_sort,
      aggs = [(''hosts'', ''host.name.keyword'', 10), (''users'', ''user.name.keyword'', 10)]\<rparr>"

record hunt_report =
  report_technique :: technique
  report_results :: search_result
  report_timeline :: "(string \<times> int) list"

definition hunt_mitre_attack ::
  "'w env \<Rightarrow> string \<Rightarrow> string \<Rightarrow> 'w \<Rightarrow> (error + hunt_report) \<times> 'w" where
  "hunt_mitre_attack env technique_id time_range w =
     (case es env of
        None \<Rightarrow> (Inl (Message ''Elasticsearch not connected''), w)
      | Some search \<Rightarrow>
         (case map_of attack_patterns technique_id of
            None \<Rightarrow> (Inl (Message (''Unknown MITRE ATT&CK technique: '' @ technique_id)), w)
          | Some tech \<Rightarrow>
             (let (now, w1) = utcnow env w;
                  start_time =
                    (if time_range = ''1h'' then now - hours 1
                     else if time_range = ''24h'' then now - hours 24
                     else if time_range = ''7d'' then now - days 7
                     else now - hours 24);
                  (res, w2) = search ''*'' (mitre_search_body tech start_time) w1
              in case res of
                   Inl msg \<Rightarrow> (Inl (Caught (ClientError msg)), w2)
                 | Inr result \<Rightarrow>
                    (case create_timeline (hits result) of
                       Inl e \<Rightarrow> (Inl (Caught e), w2)
                     | Inr timeline \<Rightarrow>
                        (Inr \<lparr>report_technique = tech, report_results = result,
                              report_timeline = timeline\<rparr>, w2)))))"

subsection \<open>The indicator hunt\<close>

definition ioc_search_body :: "string \<Rightarrow> int \<Rightarrow> search_body" where
  "ioc_search_body q start_time =
     \<lparr>must = [QueryString q, Range ''@timestamp'' [(''gte'', IsoTime start_time)]],
      should = [],
      size_limit = 50,
      sort_keys = time_sort,
      aggs = []\<rparr>"

datatype ioc_entry = Found string int "hit list" | Failed error

fun hunt_iocs_loop ::
  "'w env \<Rightarrow> 'w client \<Rightarrow> string \<Rightarrow> string list \<Rightarrow> (string \<times> ioc_entry) list \<Rightarrow> 'w
     \<Rightarrow> (string \<times> ioc_entry) list \<times> 'w" where
  "hunt_iocs_loop env search time_range [] results w = (results, w)"
| "hunt_iocs_loop env search time_range (ioc # rest) results w =
     (let ioc_type = detect_ioc_type ioc;
          q = build_ioc_query ioc ioc_type
      in if q \<noteq> [] then
           (let (now, w1) = utcnow env w;
                start_time =
                  (if time_range = ''1h'' then now - hours 1
                   else if time_range = ''24h'' then now - hours 24
                   else if time_range = ''7d'' then now - days 7
                   else now - hours 24);
                (res, w2) = search ''*'' (ioc_search_body q start_time) w1
            in case res of
                 Inr result \<Rightarrow>
                   hunt_iocs_loop env search time_range rest
                     (AList.update ioc (Found ioc_type (total_value result) (hits result)) results) w2
               | Inl msg \<Rightarrow>
                   hunt_iocs_loop env search time_range rest
                     (AList.update ioc (Failed (Caught (ClientError msg))) results) w2)
         else hunt_iocs_loop env search time_range rest results w)"

definition hunt_iocs ::
  "'w env \<Rightarrow> string list \<Rightarrow> string \<Rightarrow> 'w \<Rightarrow> (error + (string \<times> ioc_entry) list) \<times> 'w" where
  "hunt_iocs env iocs time_range w =
     (case es env of
        None \<Rightarrow> (Inl (Message ''Elasticsearch not connected''), w)
      | Some search \<Rightarrow>
          (let (results, w') = hunt_iocs_loop env search time_range iocs [] w
           in (Inr results, w')))"

subsection \<open>The anomaly hunts\<close>

definition unusual_login_body :: "string \<Rightarrow> search_body" where
  "unusual_login_body time_range =
     \<lparr>must = [Term ''event.category'' ''authentication'',
              Term ''event.outcome'' ''success'',
              Range ''@timestamp'' [(''gte'', QStr (''now-'' @ time_range))]],
      should = [Range ''@timestamp''
                  [(''time_zone'', QStr ''UTC''), (''format'', QStr ''hour''), (''gte'', QStr ''22'')],
                Range ''@timestamp''
                  [(''time_zone'', QStr ''UTC''), (''format'', QStr ''hour''), (''lt'', QStr ''06'')]],
      size_limit = 20,
      sort_keys = time_sort,
      aggs = []\<rparr>"

definition privilege_escalation_body :: "string \<Rightarrow> search_body" where
  \<open>privilege_escalation_body time_range =
     \<lparr>must = [QueryString ''process.args:("runas" OR "sudo" OR "su" OR "net user" OR "net group")'',
              Range ''@timestamp'' [(''gte'', QStr (''now-'' @ time_range))]],
      should = [],
      size_limit = 20,
      sort_keys = time_sort,
      aggs = []\<rparr>\<close>

definition data_exfiltration_body :: "string \<Rightarrow> search_body" where
  "data_exfiltration_body time_range =
     \<lparr>must = [Range ''network.bytes'' [(''gte'', QNum 10485760)],
              Term ''network.direction'' ''outbound'',
              Range ''@timestamp'' [(''gte'', QStr (''now-'' @ time_range))]],
      should = [],
      size_limit = 20,
      sort_keys = [(''network.bytes'', ''desc'')],
      aggs = []\<rparr>"

definition lateral_movement_body :: "string \<Rightarrow> search_body" where
  \<open>lateral_movement_body time_range =
     \<lparr>must = [QueryString ''process.name:("net.exe" OR "psexec.exe" OR "wmic.exe" OR "ssh.exe")'',
              Range ''@timestamp'' [(''gte'', QStr (''now-'' @ time_range))]],
      should = [],
      size_limit = 20,
      sort_keys = time_sort,
      aggs = []\<rparr>\<close>

text \<open>Each sub-hunt sends its body to index \<^verbatim>\<open>*\<close> and returns the response or the
  payload of the exception.\<close>

definition sub_hunt :: "'w client \<Rightarrow> search_body \<Rightarrow> 'w \<Rightarrow> (error + search_result) \<times> 'w" where
  "sub_hunt search body w =
     (let (res, w') = search ''*'' body w
      in case res of
           Inr result \<Rightarrow> (Inr result, w')
         | Inl msg \<Rightarrow> (Inl (Caught (ClientError msg)), w'))"

definition hunt_unusual_login_times ::
  "'w client \<Rightarrow> string \<Rightarrow> 'w \<Rightarrow> (error + search_result) \<times> 'w" where
  "hunt_unusual_login_times search time_range = sub_hunt search (unusual_login_body time_range)"

definition hunt_privilege_escalation ::
  "'w client \<Rightarrow> string \<Rightarrow> 'w \<Rightarrow> (error + search_result) \<times> 'w" where
  "hunt_privilege_escalation search time_range =
     sub_hunt search (privilege_escalation_body time_range)"

definition hunt_data_exfiltration ::
  "'w client \<Rightarrow> string \<Rightarrow> 'w \<Rightarrow> (error + search_result) \<times> 'w" where
  "hunt_data_exfiltration search time_range = sub_hunt search (data_exfiltration_body time_range)"

definition hunt_lateral_movement ::
  "'w client \<Rightarrow> string \<Rightarrow> 'w \<Rightarrow> (error + search_result) \<times> 'w" where
  "hunt_lateral_movement search time_range = sub_hunt search (lateral_movement_body time_range)"

record anomalies =
  unusual_logins :: "error + search_result"
  privilege_escalation :: "error + search_result"
  data_exfiltration :: "error + search_result"
  lateral_movement :: "error + search_result"

definition hunt_anomalies :: "'w env \<Rightarrow> string \<Rightarrow> 'w \<Rightarrow> (error + anomalies) \<times> 'w" where
  "hunt_anomalies env time_range w =
     (case es env of
        None \<Rightarrow> (Inl (Message ''Elasticsearch not connected''), w)
      | Some search \<Rightarrow>
          (let (r1, w1) = hunt_unusual_login_times search time_range w;
               (r2, w2) = hunt_privilege_escalation search time_range w1;
               (r3, w3) = hunt_data_exfiltration search time_range w2;
               (r4, w4) = hunt_lateral_movement search time_range w3
           in (Inr \<lparr>unusual_logins = r1, privilege_escalation = r2,
                     data_exfiltration = r3, lateral_movement = r4\<rparr>, w4)))"

section \<open>The log analyzer (ai-chat/app.py)\<close>

definition search_logs_body :: "string \<Rightarrow> int \<Rightarrow> search_body" where
  "search_logs_body q start_time =
     \<lparr>must = [QueryString q, Range ''@timestamp'' [(''gte'', IsoTime start_time)]],
      should = [],
      size_limit = 50,
      sort_keys = time_sort,
      aggs = []\<rparr>"

definition search_logs ::
  "'w env \<Rightarrow> string \<Rightarrow> string \<Rightarrow> string \<Rightarrow> 'w \<Rightarrow> (error + search_result) \<times> 'w" where
  "search_logs env q time_range index_pattern w =
     (case es env of
        None \<Rightarrow> (Inl (Message ''Elasticsearch not connected''), w)
      | Some search \<Rightarrow>
          (let (now, w1) = utcnow env w;
               start_time =
                 (if time_range = ''1h'' then now - hours 1
                  else if time_range = ''24h'' then now - hours 24
                  else if time_range = ''7d'' then now - days 7
                  else now - hours 1);
               (res, w2) = search index_pattern (search_logs_body q start_time) w1
           in case res of
                Inr result \<Rightarrow> (Inr result, w2)
              | Inl msg \<Rightarrow> (Inl (Caught (ClientError msg)), w2)))"

definition security_alerts_body :: "string \<Rightarrow> int \<Rightarrow> search_body" where
  "security_alerts_body severity limit =
     \<lparr>must = [Term ''event.category'' ''security'',
              Range ''@timestamp'' [(''gte'', QStr ''now-24h'')]],
      should = [Term ''event.severity'' severity],
      size_limit = limit,
      sort_keys = time_sort,
      aggs = []\<rparr>"

definition get_security_alerts ::
  "'w env \<Rightarrow> string \<Rightarrow> int \<Rightarrow> 'w \<Rightarrow> (error + search_result) \<times> 'w" where
  "get_security_alerts env severity limit w =
     (case es env of
        None \<Rightarrow> (Inl (Message ''Elasticsearch not connected''), w)
      | Some search \<Rightarrow>
          (let (res, w') = search ''wazuh-alerts-*'' (security_alerts_body severity limit) w
           in case res of
                Inr result \<Rightarrow> (Inr result, w')
              | Inl msg \<Rightarrow> (Inl (Caught (ClientError msg)), w')))"

subsection \<open>The prompt of analyze_with_ai\<close>

text \<open>
  An f-string writes a string as it is; \<open>render\<close> stands for Python's \<^verbatim>\<open>str\<close> on
  the other values.
\<close>

fun py_str :: "(jval \<Rightarrow> string) \<Rightarrow> jval \<Rightarrow> string" where
  "py_str render (JStr s) = s"
| "py_str render v = render v"

definition NL :: string where
  "NL = [CHR 0x0A]"

text \<open>
  The loop over \<^verbatim>\<open>logs_data['hits']['hits'][:10]\<close>. The default of the outer
  \<^verbatim>\<open>get\<close> is evaluated before the call, so an \<^verbatim>\<open>event\<close> that is no object
  raises whether or not \<^verbatim>\<open>message\<close> is present.
\<close>

fun log_context_loop :: "(jval \<Rightarrow> string) \<Rightarrow> hit list \<Rightarrow> string \<Rightarrow> exn + string" where
  "log_context_loop render [] log_context = Inr log_context"
| "log_context_loop render (h # rest) log_context =
     (let src = source h;
          timestamp = (case map_of src ''@timestamp'' of Some v \<Rightarrow> v | None \<Rightarrow> JStr ''Unknown'')
      in case (case map_of src ''event'' of
                 None \<Rightarrow> Inr []
               | Some (JObj ev) \<Rightarrow> Inr ev
               | Some _ \<Rightarrow> Inl AttributeError) of
           Inl e \<Rightarrow> Inl e
         | Inr ev \<Rightarrow>
            (let fallback = (case map_of ev ''original'' of Some v \<Rightarrow> v | None \<Rightarrow> JStr ''No message'');
                 message = (case map_of src ''message'' of Some v \<Rightarrow> v | None \<Rightarrow> fallback)
             in log_context_loop render rest
                  (log_context @ ''Time: '' @ py_str render timestamp @ NL
                     @ ''Log: '' @ py_str render message @ NL @ NL)))"

definition prompt_text :: "string \<Rightarrow> string \<Rightarrow> string" where
  "prompt_text context question =
     NL @ ''You are a cybersecurity expert analyzing SOC logs. Based on the following log data, answer the user''
        @ [CHR 0x27] @ ''s question.'' @ NL
     @ NL
     @ ''LOG DATA:'' @ NL
     @ context @ ''  # Limit context length'' @ NL
     @ NL
     @ ''USER QUESTION: '' @ question @ NL
     @ NL
     @ ''Please provide:'' @ NL
     @ ''1. A clear analysis of the logs'' @ NL
     @ ''2. Any security concerns or patterns identified'' @ NL
     @ ''3. Recommended actions if applicable'' @ NL
     @ ''4. Risk assessment (Low/Medium/High)'' @ NL
     @ NL
     @ ''Keep your response focused and actionable for SOC analysts.'' @ NL"

text \<open>
  The prompt that \<^verbatim>\<open>analyze_with_ai\<close> sends to the model. \<open>logs_data\<close> is what
  \<^verbatim>\<open>search_logs\<close> returned: an error payload has no \<^verbatim>\<open>hits\<close>.
\<close>

definition analysis_prompt ::
  "(jval \<Rightarrow> string) \<Rightarrow> error + search_result \<Rightarrow> string \<Rightarrow> exn + string" where
  "analysis_prompt render logs_data question =
     (case (case logs_data of
              Inr result \<Rightarrow> log_context_loop render (take 10 (hits result)) []
            | Inl e \<Rightarrow> Inr []) of
        Inl e \<Rightarrow> Inl e
      | Inr log_context \<Rightarrow> Inr (prompt_text (take 2000 log_context) question))"

section \<open>Notions used to state the properties\<close>

text \<open>The lower bound that a body puts on \<^verbatim>\<open>@timestamp\<close> among its mandatory clauses.\<close>

fun clause_gte :: "clause \<Rightarrow> qval option" where
  "clause_gte (Range field kv) = (if field = ''@timestamp'' then map_of kv ''gte'' else None)"
| "clause_gte (QueryString q) = None"
| "clause_gte (Term field v) = None"

definition time_lower_bound :: "search_body \<Rightarrow> qval option" where
  "time_lower_bound body =
     (case List.map_filter clause_gte (must body) of [] \<Rightarrow> None | b # rest \<Rightarrow> Some b)"

text \<open>A parenthesized clause that joins, with OR, the value bound to each of the fields.\<close>

definition bound_to :: "string \<Rightarrow> string \<Rightarrow> string" where
  \<open>bound_to v field = field @ '':"'' @ v @ ''"''\<close>

fun or_join :: "string list \<Rightarrow> string" where
  "or_join [] = []"
| "or_join [x] = x"
| "or_join (x # y # rest) = x @ '' OR '' @ or_join (y # rest)"

definition or_clause :: "string list \<Rightarrow> string \<Rightarrow> string" where
  "or_clause fs v = ''('' @ or_join (map (bound_to v) fs) @ '')''"

text \<open>
  For the queries that reach the client: \<open>recording search\<close> answers as \<open>search\<close> does
  and appends the body it received to a list kept beside the world; \<open>recorded env\<close> is the
  environment \<open>env\<close> with such a client. \<open>bounded\<close>: the body has the lower bound.
\<close>

definition recording :: "'w client \<Rightarrow> ('w \<times> search_body list) client" where
  "recording search index body =
     (\<lambda>(w, sent). case search index body w of (res, w') \<Rightarrow> (res, (w', sent @ [body])))"

definition recorded :: "'w env \<Rightarrow> ('w \<times> search_body list) env" where
  "recorded env =
     \<lparr>es = map_option recording (es env),
      utcnow = (\<lambda>(w, sent). case utcnow env w of (t, w') \<Rightarrow> (t, (w', sent)))\<rparr>"

definition bounded :: "search_body \<Rightarrow> bool" where
  "bounded body = (time_lower_bound body \<noteq> None)"

definition sent_by :: "('a \<times> 'w \<times> search_body list) \<Rightarrow> search_body list" where
  "sent_by outcome = snd (snd outcome)"

text \<open>
  Decimal digits, hexadecimal digits, and an octet as the specification has it: one to
  three decimal digits whose value is at most 255.
\<close>

definition is_digit :: "char \<Rightarrow> bool" where
  "is_digit c = (c \<in> set ''0123456789'')"

definition is_hex_digit :: "char \<Rightarrow> bool" where
  "is_hex_digit c = (c \<in> set ''0123456789abcdefABCDEF'')"

definition dec_value :: "string \<Rightarrow> nat" where
  "dec_value s = foldl (\<lambda>n c. 10 * n + (of_char c - 48)) 0 s"

definition is_octet :: "string \<Rightarrow> bool" where
  "is_octet s = (1 \<le> length s \<and> length s \<le> 3 \<and> list_all is_digit s \<and> dec_value s \<le> 255)"

text \<open>
  For the indicator hunt: the window of a hunt as the specification gives it, the answers
  of the client to the successive queries of a batch, and the entry that an answer gives.
\<close>

definition hunt_window :: "int \<Rightarrow> string \<Rightarrow> int" where
  "hunt_window now time_range =
     (if time_range = ''1h'' then now - hours 1
      else if time_range = ''7d'' then now - days 7
      else now - hours 24)"

fun ioc_answers ::
  "'w env \<Rightarrow> 'w client \<Rightarrow> string \<Rightarrow> string list \<Rightarrow> 'w \<Rightarrow> (string + search_result) list" where
  "ioc_answers env search time_range [] w = []"
| "ioc_answers env search time_range (ioc # rest) w =
     (let (now, w1) = utcnow env w;
          (res, w2) = search ''*''
             (ioc_search_body (build_ioc_query ioc (detect_ioc_type ioc))
                (hunt_window now time_range)) w1
      in res # ioc_answers env search time_range rest w2)"

definition entry_of :: "string \<Rightarrow> string + search_result \<Rightarrow> ioc_entry" where
  "entry_of ioc answer =
     (case answer of
        Inl msg \<Rightarrow> Failed (Caught (ClientError msg))
      | Inr result \<Rightarrow> Found (detect_ioc_type ioc) (total_value result) (hits result))"

definition ioc_entries ::
  "'w env \<Rightarrow> 'w client \<Rightarrow> string \<Rightarrow> string list \<Rightarrow> 'w \<Rightarrow> ioc_entry list" where
  "ioc_entries env search time_range iocs w =
     map (\<lambda>(ioc, answer). entry_of ioc answer) (zip iocs (ioc_answers env search time_range iocs w))"

text \<open>
  For the timeline. \<open>date_key\<close> is the key under which the code files a hit: the first
  ten characters of its time stamp (none for a hit without a time stamp or with the time
  stamp \<open>Unknown\<close>). \<open>text_stamped\<close>: the time stamp, when present, is a string.
\<close>

definition date_key :: "hit \<Rightarrow> string option" where
  "date_key h =
     (case map_of (source h) ''@timestamp'' of
        Some (JStr ts) \<Rightarrow> if ts = ''Unknown'' then None else Some (take 10 ts)
      | _ \<Rightarrow> None)"

definition key_count :: "hit list \<Rightarrow> string \<Rightarrow> int" where
  "key_count hs d = int (length (filter (\<lambda>h. date_key h = Some d) hs))"

definition text_stamped :: "hit \<Rightarrow> bool" where
  "text_stamped h =
     (case map_of (source h) ''@timestamp'' of
        Some (JNum n) \<Rightarrow> False
      | Some (JObj kv) \<Rightarrow> False
      | _ \<Rightarrow> True)"

definition stamped :: "string \<Rightarrow> hit" where
  "stamped ts = \<lparr>source = [(''@timestamp'', JStr ts)]\<rparr>"

definition merged :: "int option \<Rightarrow> int \<Rightarrow> int option" where
  "merged old n = (case old of None \<Rightarrow> if n = 0 then None else Some n | Some m \<Rightarrow> Some (m + n))"

text \<open>
  The calendar day in UTC of a time stamp, as the specification names it. A time stamp is
  read as \<open>YYYY-MM-DD\<close>, \<open>T\<close>, \<open>HH:MM:SS\<close>, an optional fraction of a second, and a
  zone: \<open>Z\<close>, nothing (read as UTC, as the index reads it) or an offset \<open>+HH:MM\<close> or
  \<open>-HH:MM\<close>. Its day in UTC is the day written, moved by as many days as the offset
  carries the instant across midnight. \<open>utc_written\<close>: the time stamp is well formed and
  its offset is zero.
\<close>

definition digit_val :: "char \<Rightarrow> nat" where
  "digit_val c = of_char c - 48"

definition digit_chr :: "nat \<Rightarrow> char" where
  "digit_chr n = ''0123456789'' ! n"

definition num2 :: "char \<Rightarrow> char \<Rightarrow> nat" where
  "num2 a b = 10 * digit_val a + digit_val b"

definition num4 :: "char \<Rightarrow> char \<Rightarrow> char \<Rightarrow> char \<Rightarrow> nat" where
  "num4 a b c d = 100 * num2 a b + num2 c d"

definition show2 :: "nat \<Rightarrow> string" where
  "show2 n = [digit_chr (n div 10), digit_chr (n mod 10)]"

definition show4 :: "nat \<Rightarrow> string" where
  "show4 n = show2 (n div 100) @ show2 (n mod 100)"

definition leap :: "nat \<Rightarrow> bool" where
  "leap y = ((y mod 4 = 0 \<and> y mod 100 \<noteq> 0) \<or> y mod 400 = 0)"

definition days_in_month :: "nat \<Rightarrow> nat \<Rightarrow> nat" where
  "days_in_month y m =
     (if m = 2 then (if leap y then 29 else 28)
      else if m = 4 \<or> m = 6 \<or> m = 9 \<or> m = 11 then 30 else 31)"

definition parse_date :: "string \<Rightarrow> (nat \<times> nat \<times> nat) option" where
  "parse_date s =
     (if length s = 10 \<and> s ! 4 = CHR ''-'' \<and> s ! 7 = CHR ''-''
         \<and> list_all is_digit [s ! 0, s ! 1, s ! 2, s ! 3, s ! 5, s ! 6, s ! 8, s ! 9]
      then (let y = num4 (s ! 0) (s ! 1) (s ! 2) (s ! 3);
                m = num2 (s ! 5) (s ! 6);
                d = num2 (s ! 8) (s ! 9)
            in if 1 \<le> m \<and> m \<le> 12 \<and> 1 \<le> d \<and> d \<le> days_in_month y m
               then Some (y, m, d) else None)
      else None)"

definition parse_clock :: "string \<Rightarrow> nat option" where
  "parse_clock s =
     (if length s = 8 \<and> s ! 2 = CHR '':'' \<and> s ! 5 = CHR '':''
         \<and> list_all is_digit [s ! 0, s ! 1, s ! 3, s ! 4, s ! 6, s ! 7]
         \<and> num2 (s ! 0) (s ! 1) < 24 \<and> num2 (s ! 3) (s ! 4) < 60 \<and> num2 (s ! 6) (s ! 7) \<le> 60
      then Some (60 * num2 (s ! 0) (s ! 1) + num2 (s ! 3) (s ! 4))
      else None)"

definition parse_zone :: "string \<Rightarrow> int option" where
  "parse_zone s =
     (if s = ''Z'' \<or> s = [] then Some 0
      else if length s = 6 \<and> (s ! 0 = CHR ''+'' \<or> s ! 0 = CHR ''-'') \<and> s ! 3 = CHR '':''
         \<and> list_all is_digit [s ! 1, s ! 2, s ! 4, s ! 5] \<and> num2 (s ! 4) (s ! 5) < 60
      then Some ((if s ! 0 = CHR ''-'' then - 1 else 1)
                   * int (60 * num2 (s ! 1) (s ! 2) + num2 (s ! 4) (s ! 5)))
      else None)"

definition drop_fraction :: "string \<Rightarrow> string" where
  "drop_fraction s =
     (case s of [] \<Rightarrow> [] | c # rest \<Rightarrow> if c = CHR ''.'' then dropWhile is_digit rest else s)"

definition utc_parts :: "string \<Rightarrow> ((nat \<times> nat \<times> nat) \<times> nat \<times> int) option" where
  "utc_parts ts =
     (case parse_date (take 10 ts) of
        None \<Rightarrow> None
      | Some date \<Rightarrow>
          if 10 < length ts \<and> ts ! 10 = CHR ''T'' then
            (case parse_clock (take 8 (drop 11 ts)) of
               None \<Rightarrow> None
             | Some minutes \<Rightarrow>
                 (case parse_zone (drop_fraction (drop 19 ts)) of
                    None \<Rightarrow> None
                  | Some off \<Rightarrow> Some (date, minutes, off)))
          else None)"

fun next_day :: "nat \<times> nat \<times> nat \<Rightarrow> nat \<times> nat \<times> nat" where
  "next_day (y, m, d) =
     (if d < days_in_month y m then (y, m, d + 1)
      else if m < 12 then (y, m + 1, 1)
      else (y + 1, 1, 1))"

fun prev_day :: "nat \<times> nat \<times> nat \<Rightarrow> nat \<times> nat \<times> nat" where
  "prev_day (y, m, d) =
     (if 1 < d then (y, m, d - 1)
      else if 1 < m then (y, m - 1, days_in_month y (m - 1))
      else (y - 1, 12, 31))"

definition shift_days :: "int \<Rightarrow> nat \<times> nat \<times> nat \<Rightarrow> nat \<times> nat \<times> nat" where
  "shift_days k date =
     (if 0 \<le> k then (next_day ^^ nat k) date else (prev_day ^^ nat (- k)) date)"

fun show_date :: "nat \<times> nat \<times> nat \<Rightarrow> string" where
  "show_date (y, m, d) = show4 y @ ''-'' @ show2 m @ ''-'' @ show2 d"

definition utc_day :: "string \<Rightarrow> string option" where
  "utc_day ts =
     (case utc_parts ts of
        None \<Rightarrow> None
      | Some (date, minutes, off) \<Rightarrow>
          Some (show_date (shift_days ((int minutes - off) div 1440) date)))"

definition utc_written :: "string \<Rightarrow> bool" where
  "utc_written ts = (case utc_parts ts of None \<Rightarrow> False | Some (date, minutes, off) \<Rightarrow> off = 0)"

definition hit_utc_day :: "hit \<Rightarrow> string option" where
  "hit_utc_day h =
     (case map_of (source h) ''@timestamp'' of Some (JStr ts) \<Rightarrow> utc_day ts | _ \<Rightarrow> None)"

definition utc_count :: "hit list \<Rightarrow> string \<Rightarrow> int" where
  "utc_count hs d = int (length (filter (\<lambda>h. hit_utc_day h = Some d) hs))"

definition utc_stamped :: "hit \<Rightarrow> bool" where
  "utc_stamped h =
     (case map_of (source h) ''@timestamp'' of
        None \<Rightarrow> True
      | Some (JStr ts) \<Rightarrow> utc_written ts
      | Some _ \<Rightarrow> False)"

text \<open>
  \<open>dated_as_written\<close>: the time stamp of the hit, when present, is a string, and the day
  it writes is its day in UTC (as for a time stamp written in UTC, or one whose offset
  does not carry it across midnight).
\<close>

definition dated_as_written :: "hit \<Rightarrow> bool" where
  "dated_as_written h = (text_stamped h \<and> hit_utc_day h = date_key h)"

text \<open>
  For the prompt: the message of a hit as the specification gives it (the message, else
  the original event, else \<open>No message\<close>), and the text of one entry of the context.
  \<open>event_ok\<close>: the field \<open>event\<close>, when present, is an object.
\<close>

definition event_ok :: "hit \<Rightarrow> bool" where
  "event_ok h =
     (case map_of (source h) ''event'' of
        Some (JStr s) \<Rightarrow> False
      | Some (JNum n) \<Rightarrow> False
      | _ \<Rightarrow> True)"

definition timestamp_of :: "hit \<Rightarrow> jval" where
  "timestamp_of h =
     (case map_of (source h) ''@timestamp'' of Some v \<Rightarrow> v | None \<Rightarrow> JStr ''Unknown'')"

definition message_of :: "hit \<Rightarrow> jval" where
  "message_of h =
     (case map_of (source h) ''message'' of
        Some m \<Rightarrow> m
      | None \<Rightarrow>
         (case map_of (source h) ''event'' of
            Some (JObj ev) \<Rightarrow>
              (case map_of ev ''original'' of Some v \<Rightarrow> v | None \<Rightarrow> JStr ''No message'')
          | _ \<Rightarrow> JStr ''No message''))"

definition entry_text :: "(jval \<Rightarrow> string) \<Rightarrow> hit \<Rightarrow> string" where
  "entry_text render h =
     ''Time: '' @ py_str render (timestamp_of h) @ NL
       @ ''Log: '' @ py_str render (message_of h) @ NL @ NL"

text \<open>The context of a result: the entries of its first ten hits, one after the other.\<close>

definition context_of :: "(jval \<Rightarrow> string) \<Rightarrow> search_result \<Rightarrow> string" where
  "context_of render result = concat (map (entry_text render) (take 10 (hits result)))"

section \<open>Regular expressions: the matcher and the words\<close>

declare re_rests.simps(8) [simp del]

lemma atom_rests_iff: "t \<in> set (atom_rests P s) \<longleftrightarrow> (\<exists>c. s = c # t \<and> P c)"
  by (cases s) auto

lemma re_rests_Star_iff:
  "t \<in> set (re_rests (Star a) s) \<longleftrightarrow>
     t = s \<or> (\<exists>m\<in>set (re_rests a s). length m < length s \<and> t \<in> set (re_rests (Star a) m))"
  by (subst re_rests.simps(8)) auto

lemma star_split:
  assumes "p \<in> star L"
  shows "p = [] \<or> (\<exists>u v. p = u @ v \<and> u \<in> L \<and> u \<noteq> [] \<and> v \<in> star L)"
  using assms
proof (induction rule: star.induct)
  case star_nil
  show ?case by simp
next
  case (star_app u v)
  show ?case
  proof (cases "u = []")
    case True
    with star_app.IH show ?thesis by simp
  next
    case False
    with star_app.hyps show ?thesis by blast
  qed
qed

lemma re_rests_lang: "t \<in> set (re_rests r s) \<longleftrightarrow> (\<exists>p. s = p @ t \<and> p \<in> lang r)"
proof (induction r s arbitrary: t rule: re_rests.induct)
  case (6 a b s)
  show ?case
  proof
    assume "t \<in> set (re_rests (Seq a b) s)"
    then obtain m where m: "m \<in> set (re_rests a s)" and t: "t \<in> set (re_rests b m)"
      by auto
    from m "6.IH"(1) obtain p where p: "s = p @ m" "p \<in> lang a" by blast
    from t "6.IH"(2)[OF m] obtain q where q: "m = q @ t" "q \<in> lang b" by blast
    from p q have "s = (p @ q) @ t" "p @ q \<in> lang (Seq a b)" by auto
    then show "\<exists>p. s = p @ t \<and> p \<in> lang (Seq a b)" by blast
  next
    assume "\<exists>p. s = p @ t \<and> p \<in> lang (Seq a b)"
    then obtain u v where uv: "s = (u @ v) @ t" "u \<in> lang a" "v \<in> lang b" by auto
    then have m: "v @ t \<in> set (re_rests a s)" using "6.IH"(1) by auto
    have "t \<in> set (re_rests b (v @ t))" using "6.IH"(2)[OF m] uv(3) by blast
    with m show "t \<in> set (re_rests (Seq a b) s)" by auto
  qed
next
  case (8 a s)
  show ?case
  proof
    assume "t \<in> set (re_rests (Star a) s)"
    then consider "t = s"
      | m where "m \<in> set (re_rests a s)" "length m < length s" "t \<in> set (re_rests (Star a) m)"
      using re_rests_Star_iff[of t a s] by blast
    then show "\<exists>p. s = p @ t \<and> p \<in> lang (Star a)"
    proof cases
      case 1
      have "[] \<in> lang (Star a)" by (simp add: star_nil)
      with 1 show ?thesis by force
    next
      case 2
      from 2(1) "8.IH"(1) obtain p where p: "s = p @ m" "p \<in> lang a" by blast
      from 2(1,2) have "m \<in> set (filter (\<lambda>t. length t < length s) (re_rests a s))" by simp
      from "8.IH"(2)[OF this] 2(3) obtain q where q: "m = q @ t" "q \<in> star (lang a)"
        by auto
      from p q have "s = (p @ q) @ t" "p @ q \<in> lang (Star a)"
        by (auto intro: star_app)
      then show ?thesis by blast
    qed
  next
    assume "\<exists>p. s = p @ t \<and> p \<in> lang (Star a)"
    then obtain p where p: "s = p @ t" "p \<in> star (lang a)" by auto
    from star_split[OF p(2)] show "t \<in> set (re_rests (Star a) s)"
    proof
      assume "p = []"
      with p(1) have "t = s" by simp
      then show ?thesis using re_rests_Star_iff[of t a s] by blast
    next
      assume "\<exists>u v. p = u @ v \<and> u \<in> lang a \<and> u \<noteq> [] \<and> v \<in> star (lang a)"
      then obtain u v where uv: "p = u @ v" "u \<in> lang a" "u \<noteq> []" "v \<in> star (lang a)"
        by blast
      from uv p(1) have m1: "v @ t \<in> set (re_rests a s)" using "8.IH"(1) by auto
      from uv(1,3) p(1) have m2: "length (v @ t) < length s" by simp
      from m1 m2 have m: "v @ t \<in> set (filter (\<lambda>t. length t < length s) (re_rests a s))"
        by simp
      have "t \<in> set (re_rests (Star a) (v @ t))"
        using "8.IH"(2)[OF m] uv(4) by auto
      with m1 m2 show ?thesis using re_rests_Star_iff[of t a s] by blast
    qed
  qed
qed (auto simp: atom_rests_iff)

lemma re_match_lang:
  "re_match r s \<longleftrightarrow> s \<in> lang r \<or> (\<exists>p. s = p @ [CHR 0x0A] \<and> p \<in> lang r)"
proof -
  have "re_match r s \<longleftrightarrow> [] \<in> set (re_rests r s) \<or> [CHR 0x0A] \<in> set (re_rests r s)"
    unfolding re_match_def list_ex_iff by blast
  then show ?thesis by (simp add: re_rests_lang)
qed

lemma lang_may: "p \<in> lang r \<Longrightarrow> c \<in> set p \<Longrightarrow> may r c"
proof (induction r arbitrary: p)
  case (Star r)
  from Star.prems(1) have "p \<in> star (lang r)" by simp
  then show ?case using Star.prems(2)
  proof (induction rule: star.induct)
    case star_nil
    then show ?case by simp
  next
    case (star_app u v)
    then show ?case using Star.IH by auto
  qed
next
  case (Seq r1 r2)
  from Seq.prems(1) obtain u v where uv: "p = u @ v" "u \<in> lang r1" "v \<in> lang r2" by auto
  from uv(1) Seq.prems(2) have "c \<in> set u \<or> c \<in> set v" by simp
  then show ?case using Seq.IH uv(2,3) by auto
qed auto

lemma lang_needs: "p \<in> lang r \<Longrightarrow> needs r c \<Longrightarrow> c \<in> set p"
  by (induction r c arbitrary: p rule: needs.induct) auto

lemma lang_rep: "p \<in> lang (rep n (OneOf items)) \<longleftrightarrow> length p = n \<and> (\<forall>c\<in>set p. in_class items c)"
proof (induction n arbitrary: p)
  case 0
  show ?case by auto
next
  case (Suc n)
  show ?case
  proof
    assume "p \<in> lang (rep (Suc n) (OneOf items))"
    then obtain c v where "p = [c] @ v" "in_class items c" "v \<in> lang (rep n (OneOf items))"
      by auto
    with Suc.IH show "length p = Suc n \<and> (\<forall>c\<in>set p. in_class items c)" by auto
  next
    assume a: "length p = Suc n \<and> (\<forall>c\<in>set p. in_class items c)"
    then obtain c v where cv: "p = c # v" by (cases p) auto
    with a Suc.IH[of v] have "v \<in> lang (rep n (OneOf items))" "in_class items c" by auto
    then have "[c] \<in> lang (OneOf items)" by simp
    moreover have "p = [c] @ v" using cv by simp
    ultimately show "p \<in> lang (rep (Suc n) (OneOf items))"
      using \<open>v \<in> lang (rep n (OneOf items))\<close> unfolding rep.simps lang.simps(6) by blast
  qed
qed

subsection \<open>Characters, octets and the languages of the patterns\<close>

lemma range10: "48 \<le> (n::nat) \<Longrightarrow> n \<le> 57 \<Longrightarrow> n \<in> {48, 49, 50, 51, 52, 53, 54, 55, 56, 57}"
  by (simp, presburger)

lemma range6_lower: "97 \<le> (n::nat) \<Longrightarrow> n \<le> 102 \<Longrightarrow> n \<in> {97, 98, 99, 100, 101, 102}"
  by (simp, presburger)

lemma range6_upper: "65 \<le> (n::nat) \<Longrightarrow> n \<le> 70 \<Longrightarrow> n \<in> {65, 66, 67, 68, 69, 70}"
  by (simp, presburger)

lemma of_char_image: "(of_char c :: nat) \<in> of_char ` S \<Longrightarrow> c \<in> S"
  by auto

lemma is_digit_iff: "is_digit c \<longleftrightarrow> 48 \<le> (of_char c :: nat) \<and> (of_char c :: nat) \<le> 57"
proof
  assume "is_digit c"
  then show "48 \<le> (of_char c :: nat) \<and> (of_char c :: nat) \<le> 57"
    by (auto simp: is_digit_def)
next
  assume "48 \<le> (of_char c :: nat) \<and> (of_char c :: nat) \<le> 57"
  then have "(of_char c :: nat) \<in> {48, 49, 50, 51, 52, 53, 54, 55, 56, 57}"
    by (simp only: range10)
  then have "(of_char c :: nat) \<in> of_char ` set ''0123456789''" by simp
  then show "is_digit c" unfolding is_digit_def by (rule of_char_image)
qed

lemma in_class_digit: "in_class digit c \<longleftrightarrow> is_digit c"
  by (simp add: in_class_def digit_def is_digit_iff)

lemma in_class_hex: "in_class hex c \<longleftrightarrow> is_hex_digit c"
proof
  assume "is_hex_digit c"
  then show "in_class hex c"
    by (auto simp: is_hex_digit_def in_class_def hex_def)
next
  assume "in_class hex c"
  then consider "97 \<le> (of_char c :: nat)" "(of_char c :: nat) \<le> 102"
    | "65 \<le> (of_char c :: nat)" "(of_char c :: nat) \<le> 70"
    | "48 \<le> (of_char c :: nat)" "(of_char c :: nat) \<le> 57"
    by (auto simp: in_class_def hex_def)
  then have "(of_char c :: nat) \<in> {97, 98, 99, 100, 101, 102} \<union> {65, 66, 67, 68, 69, 70}
      \<union> {48, 49, 50, 51, 52, 53, 54, 55, 56, 57}"
    using range10 range6_lower range6_upper by cases blast+
  then have "(of_char c :: nat) \<in> of_char ` set ''0123456789abcdefABCDEF''" by auto
  then show "is_hex_digit c" unfolding is_hex_digit_def by (rule of_char_image)
qed

lemma char_of_code:
  "(of_char c :: nat) = 48 \<Longrightarrow> c = CHR ''0''"
  "(of_char c :: nat) = 49 \<Longrightarrow> c = CHR ''1''"
  "(of_char c :: nat) = 50 \<Longrightarrow> c = CHR ''2''"
  "(of_char c :: nat) = 53 \<Longrightarrow> c = CHR ''5''"
  using of_char_image[of c "{CHR ''0''}"] of_char_image[of c "{CHR ''1''}"]
        of_char_image[of c "{CHR ''2''}"] of_char_image[of c "{CHR ''5''}"]
  by simp_all

lemma atom_Seq:
  "s \<in> {u @ v | u v. u \<in> {[c] | c. P c} \<and> v \<in> L} \<longleftrightarrow> (\<exists>c v. s = c # v \<and> P c \<and> v \<in> L)"
proof
  assume "s \<in> {u @ v | u v. u \<in> {[c] | c. P c} \<and> v \<in> L}"
  then show "\<exists>c v. s = c # v \<and> P c \<and> v \<in> L" by auto
next
  assume "\<exists>c v. s = c # v \<and> P c \<and> v \<in> L"
  then obtain c v where "s = [c] @ v" "P c" "v \<in> L" by auto
  then show "s \<in> {u @ v | u v. u \<in> {[c] | c. P c} \<and> v \<in> L}" by blast
qed

lemma lang_Seq_Lit: "s \<in> lang (Seq (Lit x) r) \<longleftrightarrow> (\<exists>v. s = x # v \<and> v \<in> lang r)"
  by auto

lemma lang_Seq_OneOf:
  "s \<in> lang (Seq (OneOf items) r) \<longleftrightarrow> (\<exists>c v. s = c # v \<and> in_class items c \<and> v \<in> lang r)"
  unfolding lang.simps by (rule atom_Seq)

lemma lang_Seq_NoneOf:
  "s \<in> lang (Seq (NoneOf items) r) \<longleftrightarrow> (\<exists>c v. s = c # v \<and> \<not> in_class items c \<and> v \<in> lang r)"
  unfolding lang.simps by (rule atom_Seq)

lemma lang_Seq_AnyChar:
  "s \<in> lang (Seq AnyChar r) \<longleftrightarrow> (\<exists>c v. s = c # v \<and> c \<noteq> CHR 0x0A \<and> v \<in> lang r)"
  unfolding lang.simps by (rule atom_Seq)

lemma lang_Seq_Eps: "lang (Seq Eps r) = lang r"
  by auto

lemma lang_SeqI: "u \<in> lang a \<Longrightarrow> v \<in> lang b \<Longrightarrow> u @ v \<in> lang (Seq a b)"
  by auto

lemma lang_SeqE:
  assumes "s \<in> lang (Seq a b)"
  obtains u v where "s = u @ v" "u \<in> lang a" "v \<in> lang b"
  using assms by auto

lemma lang_Seq_assoc: "lang (Seq (Seq a b) r) = lang (Seq a (Seq b r))"
proof (rule set_eqI, rule iffI)
  fix s assume "s \<in> lang (Seq (Seq a b) r)"
  then obtain uv w where 1: "s = uv @ w" "uv \<in> lang (Seq a b)" "w \<in> lang r"
    by (rule lang_SeqE)
  from 1(2) obtain u v where 2: "uv = u @ v" "u \<in> lang a" "v \<in> lang b" by (rule lang_SeqE)
  have "u @ (v @ w) \<in> lang (Seq a (Seq b r))"
    by (intro lang_SeqI 2 1)
  with 1(1) 2(1) show "s \<in> lang (Seq a (Seq b r))" by simp
next
  fix s assume "s \<in> lang (Seq a (Seq b r))"
  then obtain u vw where 1: "s = u @ vw" "u \<in> lang a" "vw \<in> lang (Seq b r)"
    by (rule lang_SeqE)
  from 1(3) obtain v w where 2: "vw = v @ w" "v \<in> lang b" "w \<in> lang r" by (rule lang_SeqE)
  have "(u @ v) @ w \<in> lang (Seq (Seq a b) r)"
    by (intro lang_SeqI 2 1)
  with 1(1) 2(1) show "s \<in> lang (Seq (Seq a b) r)" by simp
qed

lemma lang_Seq_opt: "lang (Seq (optional a) r) = lang (Seq a r) \<union> lang r"
  by (auto simp: optional_def)

lemma lang_opt: "lang (optional a) = lang a \<union> {[]}"
  by (auto simp: optional_def)

lemmas lang_cons = lang_Seq_Lit lang_Seq_OneOf lang_Seq_NoneOf lang_Seq_AnyChar lang_Seq_Eps
  lang_Seq_assoc lang_Seq_opt lang_opt

lemma in_class_small:
  "in_class [Ch (CHR ''0''), Ch (CHR ''1'')] c \<longleftrightarrow> c = CHR ''0'' \<or> c = CHR ''1''"
  "in_class [Rng (CHR ''0'') (CHR ''5'')] c \<longleftrightarrow> 48 \<le> (of_char c :: nat) \<and> (of_char c :: nat) \<le> 53"
  "in_class [Rng (CHR ''0'') (CHR ''4'')] c \<longleftrightarrow> 48 \<le> (of_char c :: nat) \<and> (of_char c :: nat) \<le> 52"
  by (simp_all add: in_class_def)

lemma octet_lang:
  assumes "is_octet s"
  shows "s \<in> lang octet_re"
proof -
  from assms have len: "1 \<le> length s" "length s \<le> 3" and dig: "\<forall>c\<in>set s. is_digit c"
    and val: "dec_value s \<le> 255"
    by (auto simp: is_octet_def list_all_iff)
  from len have "length s = Suc 0 \<or> length s = Suc (Suc 0) \<or> length s = Suc (Suc (Suc 0))"
    by arith
  then consider a where "s = [a]" | a b where "s = [a, b]" | a b c where "s = [a, b, c]"
    by (auto simp: length_Suc_conv)
  then show ?thesis
  proof cases
    case 1
    with dig show ?thesis
      by (simp add: octet_re_def lang_cons in_class_digit del: lang.simps(6))
  next
    case 2
    with dig show ?thesis
      by (simp add: octet_re_def lang_cons in_class_digit del: lang.simps(6))
  next
    case 3
    let ?A = "of_char a :: nat" and ?B = "of_char b :: nat" and ?C = "of_char c :: nat"
    from 3 dig have r: "48 \<le> ?A" "?A \<le> 57" "48 \<le> ?B" "?B \<le> 57" "48 \<le> ?C" "?C \<le> 57"
      by (simp_all add: is_digit_iff)
    from 3 val have "100 * (?A - 48) + 10 * (?B - 48) + (?C - 48) \<le> 255"
      by (simp add: dec_value_def)
    with r consider "?A = 48 \<or> ?A = 49" | "?A = 50" "?B \<le> 52" | "?A = 50" "?B = 53" "?C \<le> 53"
      by arith
    then show ?thesis
    proof cases
      case 1
      then have "a = CHR ''0'' \<or> a = CHR ''1''" by (auto dest: char_of_code)
      with 3 dig show ?thesis
        by (simp add: octet_re_def lang_cons in_class_digit in_class_small del: lang.simps(6))
    next
      case 2
      then have "a = CHR ''2''" by (auto dest: char_of_code)
      with 2 3 r dig show ?thesis
        by (simp add: octet_re_def lang_cons in_class_digit in_class_small del: lang.simps(6))
    next
      case 3
      then have "a = CHR ''2''" "b = CHR ''5''" by (auto dest: char_of_code)
      with 3 \<open>s = [a, b, c]\<close> r show ?thesis
        by (simp add: octet_re_def lang_cons in_class_digit in_class_small del: lang.simps(6))
    qed
  qed
qed

lemma ip_lang:
  assumes "is_octet o1" "is_octet o2" "is_octet o3" "is_octet o4"
  shows "o1 @ ''.'' @ o2 @ ''.'' @ o3 @ ''.'' @ o4 \<in> lang ip_re"
proof -
  have dot: "x @ ''.'' \<in> lang (Seq octet_re (Lit (CHR ''.'')))" if "is_octet x" for x
    using octet_lang[OF that] by (intro lang_SeqI) simp_all
  have "(o1 @ ''.'') @ (o2 @ ''.'') @ (o3 @ ''.'') @ []
          \<in> lang (rep 3 (Seq octet_re (Lit (CHR ''.''))))"
    unfolding numeral_3_eq_3 rep.simps
    by (intro lang_SeqI dot assms) simp
  then have "((o1 @ ''.'') @ (o2 @ ''.'') @ (o3 @ ''.'') @ []) @ o4 \<in> lang ip_re"
    unfolding ip_re_def by (intro lang_SeqI octet_lang assms)
  then show ?thesis by simp
qed

lemma needs_no_match:
  assumes "needs r c" "c \<notin> set s"
  shows "\<not> re_match r s"
proof
  assume "re_match r s"
  then consider "s \<in> lang r" | p where "s = p @ [CHR 0x0A]" "p \<in> lang r"
    using re_match_lang by blast
  then show False
  proof cases
    case 1
    with assms show False using lang_needs by blast
  next
    case 2
    from 2(2) assms(1) have "c \<in> set p" by (rule lang_needs)
    with 2(1) assms(2) show False by simp
  qed
qed

lemma may_no_match:
  assumes "c \<in> set s" "c \<noteq> CHR 0x0A" "\<not> may r c"
  shows "\<not> re_match r s"
proof
  assume "re_match r s"
  then consider "s \<in> lang r" | p where "s = p @ [CHR 0x0A]" "p \<in> lang r"
    using re_match_lang by blast
  then show False
  proof cases
    case 1
    with assms show False using lang_may by blast
  next
    case 2
    from 2(1) assms(1,2) have "c \<in> set p" by simp
    with 2(2) assms(3) show False using lang_may by blast
  qed
qed

lemma needs_dot: "needs ip_re (CHR ''.'')" "needs domain_re (CHR ''.'')"
  by code_simp+

lemma may_colon:
  "\<not> may ip_re (CHR '':'')" "\<not> may domain_re (CHR '':'')" "\<not> may md5_re (CHR '':'')"
  "\<not> may sha1_re (CHR '':'')" "\<not> may sha256_re (CHR '':'')"
  by code_simp+

lemma hex_match:
  assumes "list_all is_hex_digit s"
  shows "re_match (rep n (OneOf hex)) s \<longleftrightarrow> length s = n"
proof -
  have "\<not> is_hex_digit (CHR 0x0A)" by (simp add: is_hex_digit_def)
  with assms have "CHR 0x0A \<notin> set s" by (auto simp: list_all_iff)
  then have "\<not> (\<exists>p. s = p @ [CHR 0x0A] \<and> p \<in> lang (rep n (OneOf hex)))" by auto
  then have "re_match (rep n (OneOf hex)) s \<longleftrightarrow> s \<in> lang (rep n (OneOf hex))"
    unfolding re_match_lang by blast
  also have "\<dots> \<longleftrightarrow> length s = n"
    using assms by (auto simp: lang_rep in_class_hex list_all_iff)
  finally show ?thesis .
qed

lemma hex_not_ip_domain:
  assumes "list_all is_hex_digit s"
  shows "\<not> re_match ip_re s" "\<not> re_match domain_re s"
proof -
  have "\<not> is_hex_digit (CHR ''.'')" by (simp add: is_hex_digit_def)
  with assms have "CHR ''.'' \<notin> set s" by (auto simp: list_all_iff)
  then show "\<not> re_match ip_re s" "\<not> re_match domain_re s"
    by (rule needs_no_match[OF needs_dot(1)], rule needs_no_match[OF needs_dot(2)])
qed

lemma detect_hex:
  assumes "list_all is_hex_digit s"
  shows "detect_ioc_type s =
           (if length s = 32 then ''md5'' else if length s = 40 then ''sha1''
            else if length s = 64 then ''sha256'' else first_match [(''email'', email_re), (''url'', url_re)] s)"
  using hex_not_ip_domain[OF assms] hex_match[OF assms]
  by (simp add: detect_ioc_type_def ioc_patterns_def md5_re_def sha1_re_def sha256_re_def)

lemma detect_ipv4:
  assumes "is_octet o1" "is_octet o2" "is_octet o3" "is_octet o4"
  shows "detect_ioc_type (o1 @ ''.'' @ o2 @ ''.'' @ o3 @ ''.'' @ o4) = ''ip''"
proof -
  have "re_match ip_re (o1 @ ''.'' @ o2 @ ''.'' @ o3 @ ''.'' @ o4)"
    using ip_lang[OF assms] by (simp only: re_match_lang) blast
  then show ?thesis by (simp add: detect_ioc_type_def ioc_patterns_def)
qed

lemma detect_examples:
  "detect_ioc_type ''8.8.8.8'' = ''ip''"
  "detect_ioc_type ''evil.example.com'' = ''domain''"
  "detect_ioc_type ''5d41402abc4b2a76b9719d911017c592'' = ''md5''"
  "detect_ioc_type ''not a valid indicator!!'' = ''unknown''"
  by code_simp+

text \<open>
  C3. A dotted quad of four octets (one to three decimal digits, value at most 255) is
  classified as \<open>ip\<close>; a string of exactly 32, 40 or 64 hexadecimal digits as \<open>md5\<close>,
  \<open>sha1\<close> or \<open>sha256\<close>; and the four examples of the specification are classified as
  \<open>ip\<close>, \<open>domain\<close>, \<open>md5\<close> and \<open>unknown\<close>.
\<close>

theorem classify_kinds:
  "(is_octet o1 \<and> is_octet o2 \<and> is_octet o3 \<and> is_octet o4
      \<longrightarrow> detect_ioc_type (o1 @ ''.'' @ o2 @ ''.'' @ o3 @ ''.'' @ o4) = ''ip'')
   \<and> (list_all is_hex_digit h32 \<and> length h32 = 32 \<longrightarrow> detect_ioc_type h32 = ''md5'')
   \<and> (list_all is_hex_digit h40 \<and> length h40 = 40 \<longrightarrow> detect_ioc_type h40 = ''sha1'')
   \<and> (list_all is_hex_digit h64 \<and> length h64 = 64 \<longrightarrow> detect_ioc_type h64 = ''sha256'')
   \<and> detect_ioc_type ''8.8.8.8'' = ''ip''
   \<and> detect_ioc_type ''evil.example.com'' = ''domain''
   \<and> detect_ioc_type ''5d41402abc4b2a76b9719d911017c592'' = ''md5''
   \<and> detect_ioc_type ''not a valid indicator!!'' = ''unknown''"
  using detect_ipv4[of o1 o2 o3 o4] detect_hex[of h32] detect_hex[of h40] detect_hex[of h64]
    detect_examples
  by simp

theorem classify_kinds_witness:
  "is_octet ''192'' \<and> is_octet ''168'' \<and> is_octet ''0'' \<and> is_octet ''255''
   \<and> detect_ioc_type ''192.168.0.255'' = ''ip''
   \<and> list_all is_hex_digit ''0123456789abcdefABCDEF0123456789''
   \<and> detect_ioc_type ''0123456789abcdefABCDEF0123456789'' = ''md5''
   \<and> list_all is_hex_digit ''da39a3ee5e6b4b0d3255bfef95601890afd80709''
   \<and> detect_ioc_type ''da39a3ee5e6b4b0d3255bfef95601890afd80709'' = ''sha1''
   \<and> list_all is_hex_digit ''e3b0c44298fc1c149afbf4c8996fb92427ae41e4649b934ca495991b7852b855''
   \<and> detect_ioc_type ''e3b0c44298fc1c149afbf4c8996fb92427ae41e4649b934ca495991b7852b855''
       = ''sha256''"
  using classify_kinds[of "''192''" "''168''" "''0''" "''255''"
      "''0123456789abcdefABCDEF0123456789''"
      "''da39a3ee5e6b4b0d3255bfef95601890afd80709''"
      "''e3b0c44298fc1c149afbf4c8996fb92427ae41e4649b934ca495991b7852b855''"]
  by (simp add: is_octet_def is_digit_def dec_value_def is_hex_digit_def)

lemma star_class:
  assumes "\<forall>c\<in>set t. P c"
  shows "t \<in> star {[c] | c. P c}"
  using assms
proof (induction t)
  case Nil
  show ?case by (rule star_nil)
next
  case (Cons c t)
  then have "[c] \<in> {[c] | c. P c}" "t \<in> star {[c] | c. P c}" by auto
  then have "[c] @ t \<in> star {[c] | c. P c}" by (rule star_app)
  then show ?case by simp
qed

lemma in_class_url_first:
  "in_class url_first c \<longleftrightarrow> is_space c \<or> c \<in> set ''/$.?#''"
  by (auto simp: in_class_def url_first_def)

lemma url_lang:
  assumes "scheme = ''http'' \<or> scheme = ''https''"
    and "\<not> is_space a" "a \<notin> set ''/$.?#''" "\<not> is_space b" "\<forall>c\<in>set t. \<not> is_space c"
  shows "scheme @ ''://'' @ a # b # t \<in> lang url_re"
proof -
  have nl: "is_space (CHR 0x0A)" by (simp add: is_space_def)
  with assms(4) have b: "b \<noteq> CHR 0x0A" by auto
  from assms(5) have t: "t \<in> lang (Star (NoneOf [Space]))"
    using star_class[of t "\<lambda>c. \<not> in_class [Space] c"] by (simp add: in_class_def)
  from assms(2,3) have a: "\<not> in_class url_first a" by (simp add: in_class_url_first)
  from assms(1) show ?thesis
  proof
    assume "scheme = ''http''"
    with a b t show ?thesis
      by (simp add: url_re_def lang_cons del: lang.simps(6) lang.simps(8))
  next
    assume "scheme = ''https''"
    with a b t show ?thesis
      by (simp add: url_re_def lang_cons del: lang.simps(6) lang.simps(8))
  qed
qed

lemma prefix_clash:
  assumes "u @ x # v = pre @ y # rest" "x \<notin> set pre" "x \<noteq> y" "y \<notin> set u"
  shows False
  using assms
proof (induction pre arbitrary: u)
  case Nil
  then show ?case by (cases u) auto
next
  case (Cons p ps)
  then show ?case by (cases u) auto
qed

lemma colon_not_local: "\<not> in_class local_part (CHR '':'')"
  by code_simp

lemma email_shape:
  assumes "s \<in> lang email_re"
  obtains u v where "s = u @ CHR ''@'' # v" "\<forall>c\<in>set u. in_class local_part c"
proof -
  from assms obtain u w where 1: "s = u @ w" "u \<in> lang (one_or_more (OneOf local_part))"
      "w \<in> lang (Seq (Lit (CHR ''@''))
         (Seq (one_or_more (OneOf (alnum @ [Ch (CHR ''.''), Ch (CHR ''-'')])))
         (Seq (Lit (CHR ''.'')) (rep_from 2 (OneOf alpha)))))"
    unfolding email_re_def by (rule lang_SeqE)
  from 1(3) obtain v where 2: "w = CHR ''@'' # v" unfolding lang_Seq_Lit by blast
  have "\<forall>c\<in>set u. in_class local_part c"
  proof
    fix c assume "c \<in> set u"
    with 1(2) have "may (one_or_more (OneOf local_part)) c" by (rule lang_may)
    then show "in_class local_part c" by (simp add: one_or_more_def)
  qed
  with 1(1) 2 that show thesis by blast
qed

lemma url_not_email:
  assumes "scheme = ''http'' \<or> scheme = ''https''"
  shows "scheme @ ''://'' @ rest \<notin> lang email_re"
proof
  assume "scheme @ ''://'' @ rest \<in> lang email_re"
  then obtain u v where uv: "scheme @ ''://'' @ rest = u @ CHR ''@'' # v"
      "\<forall>c\<in>set u. in_class local_part c"
    by (rule email_shape)
  from uv(2) colon_not_local have "CHR '':'' \<notin> set u" by blast
  moreover from assms have "CHR ''@'' \<notin> set scheme" by auto
  moreover from uv(1) have "u @ CHR ''@'' # v = scheme @ CHR '':'' # (''//'' @ rest)" by simp
  ultimately show False using prefix_clash[of u "CHR ''@''" v scheme "CHR '':''"] by blast
qed

text \<open>
  C2, as the code has it. A string made of \<open>http://\<close> or \<open>https://\<close> and then two or
  more characters, none of them whitespace and the first of them none of \<open>/ $ . ? #\<close>,
  is classified as \<open>url\<close>. (No pattern of higher priority matches such a string: it has
  a colon, and its colon comes before any \<open>@\<close>.)
\<close>

theorem detect_url:
  assumes "scheme = ''http'' \<or> scheme = ''https''"
    and "\<not> is_space a" "a \<notin> set ''/$.?#''" "\<not> is_space b" "\<forall>c\<in>set t. \<not> is_space c"
  shows "detect_ioc_type (scheme @ ''://'' @ a # b # t) = ''url''"
proof -
  let ?s = "scheme @ ''://'' @ a # b # t"
  have nl: "is_space (CHR 0x0A)" by (simp add: is_space_def)
  have "last ?s \<in> set (b # t)" by (cases t) auto
  with assms(4,5) have "\<not> is_space (last ?s)" by auto
  with nl have no_nl: "\<not> (\<exists>p. ?s = p @ [CHR 0x0A] \<and> p \<in> lang r)" for r
    by (metis last_snoc)
  have colon: "CHR '':'' \<in> set ?s" "CHR '':'' \<noteq> CHR 0x0A" by simp_all
  have 1: "\<not> re_match ip_re ?s" "\<not> re_match domain_re ?s" "\<not> re_match md5_re ?s"
    "\<not> re_match sha1_re ?s" "\<not> re_match sha256_re ?s"
    by (rule may_no_match[OF colon], rule may_colon)+
  have 2: "\<not> re_match email_re ?s"
    using url_not_email[OF assms(1), of "a # b # t"] no_nl[of email_re]
    by (simp only: re_match_lang) blast
  have 3: "re_match url_re ?s"
    using url_lang[OF assms] by (simp only: re_match_lang) blast
  from 1 2 3 show ?thesis
    by (simp add: detect_ioc_type_def ioc_patterns_def)
qed

theorem detect_url_witness:
  "\<not> is_space (CHR ''e'') \<and> \<not> is_space (CHR ''x'')
   \<and> list_all (\<lambda>c. \<not> is_space c) ''ample.com/a?b=1''
   \<and> detect_ioc_type ''https://example.com/a?b=1'' = ''url''"
  using detect_url[of "''https''" "CHR ''e''" "CHR ''x''" "''ample.com/a?b=1''"]
  by (simp add: is_space_def)

text \<open>
  C2 as stated fails: \<open>http://a\<close> is \<open>http://\<close> followed by one character that is no
  whitespace, no other pattern matches it, and it is classified as \<open>unknown\<close>.
\<close>

theorem detect_url_one_char:
  "\<not> is_space (CHR ''a'') \<and> detect_ioc_type ''http://a'' = ''unknown''"
  by code_simp

section \<open>Properties of the threat hunter and the log analyzer\<close>

text \<open>
  C4. For every indicator value, the query for kind \<open>ip\<close> is one parenthesized clause
  that joins with OR the value bound to \<open>source.ip\<close>, \<open>destination.ip\<close>, \<open>client.ip\<close>
  and \<open>server.ip\<close>; for each of the kinds \<open>md5\<close>, \<open>sha1\<close> and \<open>sha256\<close> it is the
  clause over all three fields \<open>file.hash.md5\<close>, \<open>file.hash.sha1\<close> and
  \<open>file.hash.sha256\<close>; for kind \<open>unknown\<close> it is the indicator in double quotes.
\<close>

theorem build_ioc_query_fields:
  \<open>build_ioc_query v ''ip'' =
      or_clause [''source.ip'', ''destination.ip'', ''client.ip'', ''server.ip''] v
   \<and> build_ioc_query v ''md5'' =
      or_clause [''file.hash.md5'', ''file.hash.sha1'', ''file.hash.sha256''] v
   \<and> build_ioc_query v ''sha1'' =
      or_clause [''file.hash.md5'', ''file.hash.sha1'', ''file.hash.sha256''] v
   \<and> build_ioc_query v ''sha256'' =
      or_clause [''file.hash.md5'', ''file.hash.sha1'', ''file.hash.sha256''] v
   \<and> build_ioc_query v ''unknown'' = ''"'' @ v @ ''"''\<close>
  by (simp add: build_ioc_query_def or_clause_def bound_to_def)

text \<open>
  C6, as the code has it. With the search client connected, a technique id that the
  catalog does not list yields the error payload whose message names the id, whatever the
  time-range token; no exception is raised on the way, and the world is left as it was.
\<close>

theorem hunt_mitre_attack_unknown_id:
  assumes "es env = Some search" and "technique_id \<notin> set (map fst attack_patterns)"
  shows "hunt_mitre_attack env technique_id time_range w =
           (Inl (Message (''Unknown MITRE ATT&CK technique: '' @ technique_id)), w)"
proof -
  from assms(2) have "map_of attack_patterns technique_id = None"
    by (simp add: map_of_eq_None_iff)
  with assms(1) show ?thesis
    by (simp add: hunt_mitre_attack_def)
qed

lemma T9999_not_listed: "''T9999'' \<notin> set (map fst attack_patterns)"
  by (simp add: attack_patterns_def)

theorem hunt_mitre_attack_unknown_id_witness:
  "hunt_mitre_attack \<lparr>es = Some (\<lambda>index body w. (Inl ''down'', w)), utcnow = (\<lambda>w::unit. (0, w))\<rparr>
      ''T9999'' ''24h'' ()
   = (Inl (Message ''Unknown MITRE ATT&CK technique: T9999''), ())"
  using hunt_mitre_attack_unknown_id
    [of "\<lparr>es = Some (\<lambda>index body w. (Inl ''down'', w)), utcnow = (\<lambda>w::unit. (0, w))\<rparr>"
        "\<lambda>index body w. (Inl ''down'', w)" "''T9999''" "''24h''" "()"]
    T9999_not_listed
  by simp

text \<open>
  C6 as stated fails when the client is missing: \<open>T9999\<close> is not in the catalog, and
  the hunt returns the connection error, which does not name the id.
\<close>

theorem hunt_mitre_attack_disconnected:
  "''T9999'' \<notin> set (map fst attack_patterns)
   \<and> hunt_mitre_attack \<lparr>es = None, utcnow = (\<lambda>w::unit. (0, w))\<rparr> ''T9999'' ''24h'' ()
       = (Inl (Message ''Elasticsearch not connected''), ())"
  by (simp add: hunt_mitre_attack_def attack_patterns_def)

text \<open>
  C1, evaluated. With the token \<open>banana\<close>, against a client that records each body it
  receives, the four sub-hunts of \<open>hunt_anomalies\<close> send bodies whose lower bound on
  \<open>@timestamp\<close> is the string \<open>now-banana\<close>: the token is embedded, and no bound of
  24 hours is put in its place.
\<close>

theorem hunt_anomalies_banana:
  "map time_lower_bound
     (snd (hunt_anomalies
        \<lparr>es = Some (\<lambda>index body sent. (Inl ''parse failure'', sent @ [body])),
         utcnow = (\<lambda>sent. (0, sent))\<rparr> ''banana'' []))
   = [Some (QStr ''now-banana''), Some (QStr ''now-banana''),
      Some (QStr ''now-banana''), Some (QStr ''now-banana'')]"
  by (simp add: hunt_anomalies_def hunt_unusual_login_times_def hunt_privilege_escalation_def
      hunt_data_exfiltration_def hunt_lateral_movement_def sub_hunt_def
      time_lower_bound_def unusual_login_body_def
      privilege_escalation_body_def data_exfiltration_body_def lateral_movement_body_def)

subsection \<open>The indicator hunt\<close>

lemma build_ioc_query_nonempty: "build_ioc_query ioc ioc_type \<noteq> []"
  by (simp add: build_ioc_query_def)

lemma length_ioc_answers: "length (ioc_answers env search time_range iocs w) = length iocs"
  by (induction iocs arbitrary: w) (auto simp: Let_def split: prod.splits)

lemma length_ioc_entries: "length (ioc_entries env search time_range iocs w) = length iocs"
  by (simp add: ioc_entries_def length_ioc_answers)

lemma hunt_iocs_loop_updates:
  "fst (hunt_iocs_loop env search time_range iocs acc w)
     = AList.updates iocs (ioc_entries env search time_range iocs w) acc"
proof (induction iocs arbitrary: acc w)
  case Nil
  show ?case by (simp add: ioc_entries_def)
next
  case (Cons ioc rest)
  obtain now w1 where u: "utcnow env w = (now, w1)" by (cases "utcnow env w")
  let ?body = "ioc_search_body (build_ioc_query ioc (detect_ioc_type ioc)) (hunt_window now time_range)"
  obtain res w2 where s: "search ''*'' ?body w1 = (res, w2)" by (cases "search ''*'' ?body w1")
  have win: "(if time_range = ''1h'' then now - hours 1
              else if time_range = ''24h'' then now - hours 24
              else if time_range = ''7d'' then now - days 7
              else now - hours 24) = hunt_window now time_range"
    by (simp add: hunt_window_def)
  show ?case
  proof (cases res)
    case (Inl msg)
    with u s win Cons.IH show ?thesis
      by (simp add: build_ioc_query_nonempty ioc_entries_def entry_of_def Let_def)
  next
    case (Inr result)
    with u s win Cons.IH show ?thesis
      by (simp add: build_ioc_query_nonempty ioc_entries_def entry_of_def Let_def)
  qed
qed

lemma update_fresh: "k \<notin> fst ` set al \<Longrightarrow> AList.update k v al = al @ [(k, v)]"
  by (induction al) auto

lemma updates_fresh:
  assumes "distinct ks" "length vs = length ks" "set ks \<inter> fst ` set al = {}"
  shows "AList.updates ks vs al = al @ zip ks vs"
  using assms
proof (induction ks arbitrary: vs al)
  case Nil
  then show ?case by simp
next
  case (Cons k ks)
  from Cons.prems(2) obtain v vs' where vs: "vs = v # vs'" by (cases vs) auto
  from Cons.prems(3) have fresh: "k \<notin> fst ` set al" by auto
  have "set ks \<inter> fst ` set (al @ [(k, v)]) = {}"
    using Cons.prems(1,3) by auto
  with Cons.IH[of vs' "al @ [(k, v)]"] Cons.prems(1,2) vs
  have "AList.updates ks vs' (al @ [(k, v)]) = (al @ [(k, v)]) @ zip ks vs'" by simp
  with vs fresh show ?case by (simp add: update_fresh)
qed

text \<open>
  C5. With the client connected and the indicators distinct, the report has one entry per
  indicator, in order. The entry of an indicator on which the client raised is the error
  payload of that exception; the entry of every other indicator carries its kind, the
  match count and the hits of its own answer. No answer stops the batch.
\<close>

theorem hunt_iocs_one_entry_each:
  assumes "es env = Some search" and "distinct iocs"
  shows "fst (hunt_iocs env iocs time_range w)
           = Inr (zip iocs (ioc_entries env search time_range iocs w))
         \<and> length (ioc_entries env search time_range iocs w) = length iocs
         \<and> (\<forall>i<length iocs.
               ioc_entries env search time_range iocs w ! i
                 = (case ioc_answers env search time_range iocs w ! i of
                      Inl msg \<Rightarrow> Failed (Caught (ClientError msg))
                    | Inr result \<Rightarrow>
                        Found (detect_ioc_type (iocs ! i)) (total_value result) (hits result)))"
proof -
  have "fst (hunt_iocs_loop env search time_range iocs [] w)
          = zip iocs (ioc_entries env search time_range iocs w)"
    using updates_fresh[of iocs "ioc_entries env search time_range iocs w" "[]"] assms(2)
    by (simp add: hunt_iocs_loop_updates length_ioc_entries)
  with assms(1) show ?thesis
    by (simp add: hunt_iocs_def length_ioc_entries case_prod_beta ioc_entries_def entry_of_def
        length_ioc_answers)
qed

theorem hunt_iocs_one_entry_each_witness:
  "fst (hunt_iocs
     \<lparr>es = Some (\<lambda>index body n.
              (if n = (0::nat) then Inr \<lparr>total_value = 3, hits = []\<rparr> else Inl ''timeout'', n + 1)),
      utcnow = (\<lambda>n. (0, n))\<rparr>
     [''1.2.3.4'', ''not-an-ioc-but-fine''] ''1h'' 0)
   = Inr [(''1.2.3.4'', Found (detect_ioc_type ''1.2.3.4'') 3 []),
          (''not-an-ioc-but-fine'', Failed (Caught (ClientError ''timeout'')))]"
  using hunt_iocs_one_entry_each[of
     "\<lparr>es = Some (\<lambda>index body n.
              (if n = (0::nat) then Inr \<lparr>total_value = 3, hits = []\<rparr> else Inl ''timeout'', n + 1)),
      utcnow = (\<lambda>n. (0, n))\<rparr>"
     "\<lambda>index body n.
              (if n = (0::nat) then Inr \<lparr>total_value = 3, hits = []\<rparr> else Inl ''timeout'', n + 1)"
     "[''1.2.3.4'', ''not-an-ioc-but-fine'']" "''1h''" 0]
  by (simp add: ioc_entries_def entry_of_def)

lemma map_of_rev_zip_last:
  assumes "length vs = length (pre @ x # post)" "x \<notin> set post"
  shows "map_of (rev (zip (pre @ x # post) vs)) x = Some (vs ! length pre)"
proof -
  let ?n = "length pre"
  from assms(1) have split: "vs = take ?n vs @ vs ! ?n # drop (Suc ?n) vs"
    by (simp add: id_take_nth_drop)
  have "zip (pre @ x # post) vs
          = zip pre (take ?n vs) @ (x, vs ! ?n) # zip post (drop (Suc ?n) vs)"
    using assms(1) by (subst split) (simp del: append_take_drop_id)
  moreover have "map_of (rev (zip post (drop (Suc ?n) vs))) x = None"
    using assms(2) by (auto simp: map_of_eq_None_iff dest: set_zip_leftD)
  ultimately show ?thesis by (simp add: map_add_def)
qed

text \<open>
  C10, as the code has it. With the client connected, the report has one entry per
  distinct indicator string, and the entry of a string is the one made from the answer
  to its last occurrence in the input.
\<close>

theorem hunt_iocs_last_wins:
  assumes "es env = Some search" and "iocs = pre @ x # post" and "x \<notin> set post"
  shows "\<exists>report. fst (hunt_iocs env iocs time_range w) = Inr report
           \<and> distinct (map fst report)
           \<and> set (map fst report) = set iocs
           \<and> map_of report x
               = Some (entry_of x (ioc_answers env search time_range iocs w ! length pre))"
proof -
  let ?vs = "ioc_entries env search time_range iocs w"
  let ?report = "AList.updates iocs ?vs []"
  have len: "length ?vs = length iocs" by (rule length_ioc_entries)
  have 1: "fst (hunt_iocs env iocs time_range w) = Inr ?report"
    using assms(1) by (simp add: hunt_iocs_def hunt_iocs_loop_updates[symmetric] case_prod_beta)
  have 2: "distinct (map fst ?report)" by (simp add: distinct_updates)
  have "dom (map_of ?report) = set iocs"
    by (simp add: updates_conv' len)
  then have 3: "set (map fst ?report) = set iocs" by (simp add: dom_map_of_conv_image_fst)
  have "map_of ?report x = map_of (rev (zip iocs ?vs)) x"
    by (simp add: updates_conv' map_upds_def)
  also have "\<dots> = Some (?vs ! length pre)"
    using map_of_rev_zip_last[of ?vs pre x post] len assms(2,3) by simp
  also have "?vs ! length pre = entry_of x (ioc_answers env search time_range iocs w ! length pre)"
    using assms(2) by (simp add: ioc_entries_def length_ioc_answers)
  finally show ?thesis using 1 2 3 by blast
qed

theorem hunt_iocs_last_wins_witness:
  "\<exists>report.
     fst (hunt_iocs
       \<lparr>es = Some (\<lambda>index body n. (Inr \<lparr>total_value = int n, hits = []\<rparr>, n + 1)),
        utcnow = (\<lambda>n::nat. (0, n))\<rparr>
       [''a.example.org'', ''b'', ''a.example.org''] ''24h'' 0) = Inr report
     \<and> distinct (map fst report)
     \<and> set (map fst report) = {''a.example.org'', ''b''}
     \<and> map_of report ''a.example.org'' = Some (Found (detect_ioc_type ''a.example.org'') 2 [])"
  using hunt_iocs_last_wins[of
     "\<lparr>es = Some (\<lambda>index body n. (Inr \<lparr>total_value = int n, hits = []\<rparr>, n + 1)),
        utcnow = (\<lambda>n::nat. (0, n))\<rparr>"
     "\<lambda>index body n. (Inr \<lparr>total_value = int n, hits = []\<rparr>, n + 1)"
     "[''a.example.org'', ''b'', ''a.example.org'']" "[''a.example.org'', ''b'']"
     "''a.example.org''" "[]" "''24h''" 0]
  by (simp add: entry_of_def insert_commute)

text \<open>
  C10 as stated fails when the client is missing: the hunt returns the connection error
  and no entry for the indicator.
\<close>

theorem hunt_iocs_disconnected:
  "hunt_iocs \<lparr>es = None, utcnow = (\<lambda>w::unit. (0, w))\<rparr> [''8.8.8.8'', ''8.8.8.8''] ''24h'' ()
     = (Inl (Message ''Elasticsearch not connected''), ())"
  by (simp add: hunt_iocs_def)

subsection \<open>The queries that reach the client\<close>

lemma bodies_bounded:
  "bounded (search_logs_body q t)" "bounded (mitre_search_body tech t)"
  "bounded (ioc_search_body q t)" "bounded (unusual_login_body time_range)"
  "bounded (privilege_escalation_body time_range)" "bounded (data_exfiltration_body time_range)"
  "bounded (lateral_movement_body time_range)" "bounded (security_alerts_body severity limit)"
  by (simp_all add: bounded_def time_lower_bound_def search_logs_body_def
      mitre_search_body_def ioc_search_body_def unusual_login_body_def
      privilege_escalation_body_def data_exfiltration_body_def lateral_movement_body_def
      security_alerts_body_def)

lemma sent_by_sub_hunt:
  "sent_by (sub_hunt (recording search) body (w, sent)) = sent @ [body]"
  by (simp add: sent_by_def sub_hunt_def recording_def split: prod.splits sum.splits)

lemma world_sub_hunt:
  obtains r w' where "sub_hunt (recording search) body (w, sent) = (r, (w', sent @ [body]))"
proof -
  obtain res w1 where "search ''*'' body w = (res, w1)" by (cases "search ''*'' body w")
  then have "\<exists>r. sub_hunt (recording search) body (w, sent) = (r, (w1, sent @ [body]))"
    by (cases res) (simp_all add: sub_hunt_def recording_def)
  with that show thesis by blast
qed

lemma sent_by_search_logs:
  "list_all bounded (sent_by (search_logs (recorded env) q time_range index_pattern (w, [])))"
  by (cases "es env")
     (auto simp: sent_by_def search_logs_def recorded_def recording_def bodies_bounded Let_def
        split: prod.splits sum.splits)

lemma sent_by_alerts:
  "list_all bounded (sent_by (get_security_alerts (recorded env) severity limit (w, [])))"
  by (cases "es env")
     (auto simp: sent_by_def get_security_alerts_def recorded_def recording_def bodies_bounded
        Let_def split: prod.splits sum.splits)

lemma sent_by_mitre:
  "list_all bounded (sent_by (hunt_mitre_attack (recorded env) technique_id time_range (w, [])))"
  by (cases "es env"; cases "map_of attack_patterns technique_id")
     (auto simp: sent_by_def hunt_mitre_attack_def recorded_def recording_def bodies_bounded
        Let_def split: prod.splits sum.splits)

lemma sent_by_anomalies:
  "list_all bounded (sent_by (hunt_anomalies (recorded env) time_range (w, [])))"
proof (cases "es env")
  case None
  then show ?thesis by (simp add: sent_by_def hunt_anomalies_def recorded_def)
next
  case (Some search)
  obtain r1 w1 where 1: "sub_hunt (recording search) (unusual_login_body time_range) (w, [])
      = (r1, (w1, [] @ [unusual_login_body time_range]))"
    by (rule world_sub_hunt)
  obtain r2 w2 where 2: "sub_hunt (recording search) (privilege_escalation_body time_range)
      (w1, [unusual_login_body time_range])
      = (r2, (w2, [unusual_login_body time_range] @ [privilege_escalation_body time_range]))"
    by (rule world_sub_hunt)
  obtain r3 w3 where 3: "sub_hunt (recording search) (data_exfiltration_body time_range)
      (w2, [unusual_login_body time_range, privilege_escalation_body time_range])
      = (r3, (w3, [unusual_login_body time_range, privilege_escalation_body time_range]
                   @ [data_exfiltration_body time_range]))"
    by (rule world_sub_hunt)
  obtain r4 w4 where 4: "sub_hunt (recording search) (lateral_movement_body time_range)
      (w3, [unusual_login_body time_range, privilege_escalation_body time_range,
            data_exfiltration_body time_range])
      = (r4, (w4, [unusual_login_body time_range, privilege_escalation_body time_range,
                   data_exfiltration_body time_range] @ [lateral_movement_body time_range]))"
    by (rule world_sub_hunt)
  from Some 1 2 3 4 show ?thesis
    by (simp add: sent_by_def hunt_anomalies_def recorded_def hunt_unusual_login_times_def
        hunt_privilege_escalation_def hunt_data_exfiltration_def hunt_lateral_movement_def
        bodies_bounded)
qed

lemma sent_by_iocs_loop:
  assumes "list_all bounded sent"
  shows "list_all bounded
           (sent_by (hunt_iocs_loop (recorded env) (recording search) time_range iocs acc (w, sent)))"
  using assms
proof (induction iocs arbitrary: acc w sent)
  case Nil
  then show ?case by (simp add: sent_by_def)
next
  case (Cons ioc rest)
  obtain now w1 where u: "utcnow env w = (now, w1)" by (cases "utcnow env w")
  define start where "start =
     (if time_range = ''1h'' then now - hours 1
      else if time_range = ''24h'' then now - hours 24
      else if time_range = ''7d'' then now - days 7
      else now - hours 24)"
  define body where "body = ioc_search_body (build_ioc_query ioc (detect_ioc_type ioc)) start"
  obtain res w2 where s: "search ''*'' body w1 = (res, w2)" by (cases "search ''*'' body w1")
  have b: "list_all bounded (sent @ [body])"
    using Cons.prems by (simp add: body_def bodies_bounded)
  have step: "hunt_iocs_loop (recorded env) (recording search) time_range (ioc # rest) acc (w, sent)
      = hunt_iocs_loop (recorded env) (recording search) time_range rest
          (AList.update ioc
             (case res of
                Inl msg \<Rightarrow> Failed (Caught (ClientError msg))
              | Inr result \<Rightarrow> Found (detect_ioc_type ioc) (total_value result) (hits result)) acc)
          (w2, sent @ [body])"
    using u s
    by (simp add: build_ioc_query_nonempty recorded_def recording_def Let_def
        start_def[symmetric] body_def[symmetric] split: sum.splits)
  show ?case unfolding step by (rule Cons.IH[OF b])
qed

lemma sent_by_iocs:
  "list_all bounded (sent_by (hunt_iocs (recorded env) iocs time_range (w, [])))"
proof (cases "es env")
  case None
  then show ?thesis by (simp add: sent_by_def hunt_iocs_def recorded_def)
next
  case (Some search)
  have "list_all bounded
          (sent_by (hunt_iocs_loop (recorded env) (recording search) time_range iocs [] (w, [])))"
    by (rule sent_by_iocs_loop) simp
  with Some show ?thesis
    by (simp add: sent_by_def hunt_iocs_def recorded_def case_prod_beta)
qed

text \<open>
  C9. Every body that an operation hands to the search client (log search, technique
  hunt, indicator hunt, each anomaly sub-hunt, alert retrieval) has, among its mandatory
  clauses, a range clause on \<open>@timestamp\<close> with a lower bound; so has each of the eight
  bodies that the two services build.
\<close>

theorem every_query_time_bounded:
  "list_all bounded (sent_by (search_logs (recorded env) q time_range index_pattern (w, [])))
   \<and> list_all bounded (sent_by (hunt_mitre_attack (recorded env) technique_id time_range (w, [])))
   \<and> list_all bounded (sent_by (hunt_iocs (recorded env) iocs time_range (w, [])))
   \<and> list_all bounded (sent_by (hunt_anomalies (recorded env) time_range (w, [])))
   \<and> list_all bounded (sent_by (get_security_alerts (recorded env) severity limit (w, [])))
   \<and> bounded (search_logs_body q t) \<and> bounded (mitre_search_body tech t)
   \<and> bounded (ioc_search_body q t) \<and> bounded (unusual_login_body time_range)
   \<and> bounded (privilege_escalation_body time_range)
   \<and> bounded (data_exfiltration_body time_range)
   \<and> bounded (lateral_movement_body time_range)
   \<and> bounded (security_alerts_body severity limit)"
  by (simp add: sent_by_search_logs sent_by_mitre sent_by_iocs sent_by_anomalies sent_by_alerts
      bodies_bounded)

theorem every_query_time_bounded_witness:
  "map time_lower_bound
     (sent_by (hunt_anomalies
        (recorded \<lparr>es = Some (\<lambda>index body w. (Inl ''down'', w)), utcnow = (\<lambda>w::unit. (0, w))\<rparr>)
        ''7d'' ((), [])))
     = [Some (QStr ''now-7d''), Some (QStr ''now-7d''), Some (QStr ''now-7d''),
        Some (QStr ''now-7d'')]
   \<and> map time_lower_bound
     (sent_by (hunt_iocs
        (recorded \<lparr>es = Some (\<lambda>index body w. (Inl ''down'', w)), utcnow = (\<lambda>w::unit. (1000, w))\<rparr>)
        [''a'', ''b''] ''junk'' ((), [])))
     = [Some (IsoTime (1000 - hours 24)), Some (IsoTime (1000 - hours 24))]"
  using every_query_time_bounded[of
      "\<lparr>es = Some (\<lambda>index body w. (Inl ''down'', w)), utcnow = (\<lambda>w::unit. (0, w))\<rparr>"]
  by (simp add: sent_by_def recorded_def recording_def hunt_anomalies_def
      hunt_unusual_login_times_def hunt_privilege_escalation_def hunt_data_exfiltration_def
      hunt_lateral_movement_def sub_hunt_def hunt_iocs_def build_ioc_query_nonempty
      time_lower_bound_def unusual_login_body_def privilege_escalation_body_def
      data_exfiltration_body_def lateral_movement_body_def ioc_search_body_def)

subsection \<open>The timeline\<close>

lemma key_count_Cons:
  "key_count (h # hs) d = (if date_key h = Some d then 1 else 0) + key_count hs d"
  by (simp add: key_count_def)

lemma key_count_nonneg: "0 \<le> key_count hs d"
  by (simp add: key_count_def)

lemma timeline_step_skip:
  assumes "text_stamped h" "date_key h = None"
  shows "create_timeline_loop (h # hs) tl0 = create_timeline_loop hs tl0"
  using assms
  by (auto simp: text_stamped_def date_key_def split: option.splits jval.splits if_splits)

lemma timeline_step_count:
  assumes "date_key h = Some k"
  shows "create_timeline_loop (h # hs) tl0 =
           create_timeline_loop hs
             (AList.update k ((case map_of tl0 k of None \<Rightarrow> 0 | Some m \<Rightarrow> m) + 1)
                (if k \<notin> fst ` set tl0 then AList.update k 0 tl0 else tl0))"
proof -
  from assms obtain ts where ts: "map_of (source h) ''@timestamp'' = Some (JStr ts)"
      "ts \<noteq> ''Unknown''" "k = take 10 ts"
    by (auto simp: date_key_def split: option.splits jval.splits if_splits)
  show ?thesis
  proof (cases "map_of tl0 k")
    case None
    then have "k \<notin> fst ` set tl0" by (simp add: map_of_eq_None_iff)
    with ts None show ?thesis by (simp add: Let_def update_conv')
  next
    case (Some m)
    then have "k \<in> fst ` set tl0" by (metis map_of_eq_None_iff option.distinct(1))
    with ts Some show ?thesis by (simp add: Let_def)
  qed
qed

lemma create_timeline_loop_counts:
  assumes "list_all text_stamped hs" "distinct (map fst tl0)"
  shows "\<exists>tl1. create_timeline_loop hs tl0 = Inr tl1 \<and> distinct (map fst tl1)
           \<and> (\<forall>d. map_of tl1 d = merged (map_of tl0 d) (key_count hs d))"
  using assms
proof (induction hs arbitrary: tl0)
  case Nil
  then show ?case by (auto simp: merged_def key_count_def split: option.splits)
next
  case (Cons h hs)
  from Cons.prems(1) have h: "text_stamped h" and hs: "list_all text_stamped hs" by simp_all
  show ?case
  proof (cases "date_key h")
    case None
    from Cons.IH[OF hs Cons.prems(2)] obtain tl1 where
      "create_timeline_loop hs tl0 = Inr tl1" "distinct (map fst tl1)"
      "\<forall>d. map_of tl1 d = merged (map_of tl0 d) (key_count hs d)" by blast
    with None show ?thesis
      by (simp add: timeline_step_skip[OF h None] key_count_Cons del: create_timeline_loop.simps)
  next
    case (Some k)
    let ?n = "(case map_of tl0 k of None \<Rightarrow> 0 | Some m \<Rightarrow> m) + 1"
    let ?tl = "AList.update k ?n (if k \<notin> fst ` set tl0 then AList.update k 0 tl0 else tl0)"
    have d: "distinct (map fst ?tl)" using Cons.prems(2) by (simp add: distinct_update)
    have m: "map_of ?tl = (map_of tl0)(k \<mapsto> ?n)" by (auto simp: update_conv')
    from Cons.IH[OF hs d] obtain tl1 where tl1:
      "create_timeline_loop hs ?tl = Inr tl1" "distinct (map fst tl1)"
      "\<forall>d. map_of tl1 d = merged (map_of ?tl d) (key_count hs d)" by blast
    have "merged (map_of ?tl d) (key_count hs d) = merged (map_of tl0 d) (key_count (h # hs) d)"
      for d
      using key_count_nonneg[of hs d] Some
      by (auto simp: m merged_def key_count_Cons split: option.splits)
    with tl1 show ?thesis
      by (simp add: timeline_step_count[OF Some] del: create_timeline_loop.simps)
  qed
qed

lemma timeline_step_fail:
  assumes "\<not> text_stamped h"
  shows "create_timeline_loop (h # hs) tl0 = Inl SliceError"
  using assms by (auto simp: text_stamped_def split: option.splits jval.splits)

lemma timeline_loop_success:
  assumes "create_timeline_loop hs tl0 = Inr tl1"
  shows "list_all text_stamped hs"
  using assms
proof (induction hs arbitrary: tl0)
  case Nil
  show ?case by simp
next
  case (Cons h hs)
  have h: "text_stamped h"
  proof (rule ccontr)
    assume "\<not> text_stamped h"
    then have "create_timeline_loop (h # hs) tl0 = Inl SliceError" by (rule timeline_step_fail)
    with Cons.prems show False by simp
  qed
  have "\<exists>tl. create_timeline_loop hs tl = Inr tl1"
  proof (cases "date_key h")
    case None
    from Cons.prems show ?thesis unfolding timeline_step_skip[OF h None] by blast
  next
    case (Some k)
    from Cons.prems show ?thesis unfolding timeline_step_count[OF Some] by blast
  qed
  then have "list_all text_stamped hs" using Cons.IH by blast
  with h show ?case by simp
qed

lemma created_timeline_counts:
  assumes "create_timeline hs = Inr timeline"
  shows "distinct (map fst timeline)
         \<and> (\<forall>d. map_of timeline d = (if key_count hs d = 0 then None else Some (key_count hs d)))"
proof -
  from assms have "list_all text_stamped hs"
    unfolding create_timeline_def by (rule timeline_loop_success)
  with create_timeline_loop_counts[of hs "[]"] assms show ?thesis
    by (auto simp: create_timeline_def merged_def)
qed

lemma report_timeline_created:
  assumes "fst (hunt_mitre_attack env technique_id time_range w) = Inr report"
  shows "create_timeline (hits (report_results report)) = Inr (report_timeline report)"
  using assms
  by (auto simp: hunt_mitre_attack_def Let_def split: option.splits prod.splits sum.splits)

lemma digit_roundtrip: "is_digit c \<Longrightarrow> digit_chr (digit_val c) = c"
  by (auto simp: is_digit_def digit_chr_def digit_val_def)

lemma digit_val_less: "is_digit c \<Longrightarrow> digit_val c < 10"
  by (auto simp: is_digit_def digit_val_def)

lemma num2_less: "is_digit a \<Longrightarrow> is_digit b \<Longrightarrow> num2 a b < 100"
  using digit_val_less[of a] digit_val_less[of b] by (simp add: num2_def)

lemma show2_num2:
  assumes "is_digit a" "is_digit b"
  shows "show2 (num2 a b) = [a, b]"
proof -
  from assms have "digit_val a < 10" "digit_val b < 10" by (simp_all add: digit_val_less)
  then have "(10 * digit_val a + digit_val b) div 10 = digit_val a"
    "(10 * digit_val a + digit_val b) mod 10 = digit_val b" by simp_all
  with assms show ?thesis by (simp add: show2_def num2_def digit_roundtrip)
qed

lemma show4_num4:
  assumes "is_digit a" "is_digit b" "is_digit c" "is_digit d"
  shows "show4 (num4 a b c d) = [a, b, c, d]"
proof -
  from assms have "num2 c d < 100" by (simp add: num2_less)
  then have "(100 * num2 a b + num2 c d) div 100 = num2 a b"
    "(100 * num2 a b + num2 c d) mod 100 = num2 c d" by simp_all
  with assms show ?thesis by (simp add: show4_def num4_def show2_num2)
qed

lemma list10:
  assumes "length s = 10"
  shows "s = [s ! 0, s ! 1, s ! 2, s ! 3, s ! 4, s ! 5, s ! 6, s ! 7, s ! 8, s ! 9]"
proof -
  from assms obtain a0 a1 a2 a3 a4 a5 a6 a7 a8 a9 where
    "s = [a0, a1, a2, a3, a4, a5, a6, a7, a8, a9]"
    by (auto simp: length_Suc_conv eval_nat_numeral)
  then show ?thesis by simp
qed

lemma show_parse_date:
  assumes "parse_date s = Some date"
  shows "show_date date = s"
proof -
  from assms have len: "length s = 10" and sep: "s ! 4 = CHR ''-''" "s ! 7 = CHR ''-''"
    and dig: "is_digit (s ! 0)" "is_digit (s ! 1)" "is_digit (s ! 2)" "is_digit (s ! 3)"
      "is_digit (s ! 5)" "is_digit (s ! 6)" "is_digit (s ! 8)" "is_digit (s ! 9)"
    and date: "date = (num4 (s ! 0) (s ! 1) (s ! 2) (s ! 3), num2 (s ! 5) (s ! 6),
                       num2 (s ! 8) (s ! 9))"
    by (auto simp: parse_date_def Let_def split: if_splits)
  have "show_date date = [s ! 0, s ! 1, s ! 2, s ! 3, CHR ''-'', s ! 5, s ! 6, CHR ''-'', s ! 8, s ! 9]"
    unfolding date using dig by (simp add: show4_num4 show2_num2)
  also have "\<dots> = s" using list10[OF len] sep by simp
  finally show ?thesis .
qed

lemma utc_written_parts:
  assumes "utc_written ts"
  obtains date minutes where "utc_parts ts = Some (date, minutes, 0)"
    "parse_date (take 10 ts) = Some date" "minutes < 1440"
proof -
  from assms obtain date minutes where p: "utc_parts ts = Some (date, minutes, 0)"
    by (auto simp: utc_written_def split: option.splits)
  then have d: "parse_date (take 10 ts) = Some date"
    and c: "parse_clock (take 8 (drop 11 ts)) = Some minutes"
    by (auto simp: utc_parts_def split: option.splits if_splits)
  from c have "minutes < 1440"
    by (auto simp: parse_clock_def split: if_splits)
  with p d that show thesis by blast
qed

lemma utc_written_day:
  assumes "utc_written ts"
  shows "utc_day ts = Some (take 10 ts)"
proof -
  from assms obtain date minutes where p: "utc_parts ts = Some (date, minutes, 0)"
    and d: "parse_date (take 10 ts) = Some date" and m: "minutes < 1440"
    by (rule utc_written_parts)
  from m have "(int minutes - 0) div 1440 = 0" by simp
  with p have "utc_day ts = Some (show_date date)"
    by (simp add: utc_day_def shift_days_def)
  with d show ?thesis by (simp add: show_parse_date)
qed

lemma utc_parts_Unknown: "utc_parts ''Unknown'' = None"
  by (simp add: utc_parts_def parse_date_def)

lemma utc_stamped_key:
  assumes "utc_stamped h"
  shows "hit_utc_day h = date_key h" and "text_stamped h"
proof -
  show "text_stamped h"
    using assms by (auto simp: utc_stamped_def text_stamped_def split: option.splits jval.splits)
  show "hit_utc_day h = date_key h"
  proof (cases "map_of (source h) ''@timestamp''")
    case None
    then show ?thesis by (simp add: hit_utc_day_def date_key_def)
  next
    case (Some v)
    with assms obtain ts where v: "v = JStr ts" and w: "utc_written ts"
      by (cases v) (auto simp: utc_stamped_def)
    from w have "ts \<noteq> ''Unknown''" by (auto simp: utc_written_def utc_parts_Unknown)
    with Some v w show ?thesis
      by (simp add: hit_utc_day_def date_key_def utc_written_day)
  qed
qed

lemma utc_stamped_dated: "utc_stamped h \<Longrightarrow> dated_as_written h"
  by (simp add: dated_as_written_def utc_stamped_key)

lemma utc_count_key_count:
  assumes "list_all dated_as_written hs"
  shows "utc_count hs d = key_count hs d" and "list_all text_stamped hs"
proof -
  from assms have k: "\<forall>h\<in>set hs. hit_utc_day h = date_key h"
    and t: "\<forall>h\<in>set hs. text_stamped h"
    by (auto simp: list_all_iff dated_as_written_def)
  from t show "list_all text_stamped hs" by (simp add: list_all_iff)
  have "filter (\<lambda>h. hit_utc_day h = Some d) hs = filter (\<lambda>h. date_key h = Some d) hs"
    by (rule filter_cong) (use k in auto)
  then show "utc_count hs d = key_count hs d" by (simp add: utc_count_def key_count_def)
qed

text \<open>
  C8, as the code has it. When the day that each time stamp writes is its calendar day in
  UTC, as it is for every time stamp written in UTC, a timeline is made, and it maps each
  calendar day in UTC to the number of hits whose time stamp falls on that day, with no
  other key; so does the timeline of every report that the technique hunt returns over
  such hits. Whatever the time stamps, every timeline made maps each date key (the first
  ten characters of a time stamp) to the number of hits filed under it. For two hits
  stamped \<open>2024-01-01T10:00:00Z\<close> and one stamped \<open>2024-01-02T09:00:00Z\<close> it is
  \<open>{"2024-01-01": 2, "2024-01-02": 1}\<close>.
\<close>

theorem timeline_counts:
  "(list_all dated_as_written hs \<longrightarrow>
      (\<exists>timeline. create_timeline hs = Inr timeline \<and> distinct (map fst timeline)
         \<and> (\<forall>d. map_of timeline d
                 = (if utc_count hs d = 0 then None else Some (utc_count hs d)))))
   \<and> (\<forall>h. utc_stamped h \<longrightarrow> dated_as_written h)
   \<and> (\<forall>report. fst (hunt_mitre_attack env technique_id time_range w) = Inr report
           \<and> list_all dated_as_written (hits (report_results report)) \<longrightarrow>
         distinct (map fst (report_timeline report))
         \<and> (\<forall>d. map_of (report_timeline report) d
                 = (if utc_count (hits (report_results report)) d = 0 then None
                    else Some (utc_count (hits (report_results report)) d))))
   \<and> (\<forall>timeline. create_timeline hs = Inr timeline \<longrightarrow>
         distinct (map fst timeline)
         \<and> (\<forall>d. map_of timeline d
                 = (if key_count hs d = 0 then None else Some (key_count hs d))))
   \<and> list_all utc_stamped
        [stamped ''2024-01-01T10:00:00Z'', stamped ''2024-01-01T10:00:00Z'',
         stamped ''2024-01-02T09:00:00Z'']
   \<and> create_timeline
        [stamped ''2024-01-01T10:00:00Z'', stamped ''2024-01-01T10:00:00Z'',
         stamped ''2024-01-02T09:00:00Z'']
       = Inr [(''2024-01-01'', 2), (''2024-01-02'', 1)]"
proof -
  have made: "\<exists>timeline. create_timeline xs = Inr timeline \<and> distinct (map fst timeline)
         \<and> (\<forall>d. map_of timeline d
                 = (if utc_count xs d = 0 then None else Some (utc_count xs d)))"
    if u: "list_all dated_as_written xs" for xs
  proof -
    from u have t: "list_all text_stamped xs" by (rule utc_count_key_count(2))
    from create_timeline_loop_counts[OF t, of "[]"] obtain timeline where
      1: "create_timeline xs = Inr timeline"
      by (auto simp: create_timeline_def)
    from created_timeline_counts[OF 1] utc_count_key_count(1)[OF u]
    have "distinct (map fst timeline)
         \<and> (\<forall>d. map_of timeline d
                 = (if utc_count xs d = 0 then None else Some (utc_count xs d)))"
      by simp
    with 1 show ?thesis by blast
  qed
  have 1: "list_all dated_as_written hs \<longrightarrow>
      (\<exists>timeline. create_timeline hs = Inr timeline \<and> distinct (map fst timeline)
         \<and> (\<forall>d. map_of timeline d
                 = (if utc_count hs d = 0 then None else Some (utc_count hs d))))"
    using made by blast
  have 2: "\<forall>report. fst (hunt_mitre_attack env technique_id time_range w) = Inr report
           \<and> list_all dated_as_written (hits (report_results report)) \<longrightarrow>
         distinct (map fst (report_timeline report))
         \<and> (\<forall>d. map_of (report_timeline report) d
                 = (if utc_count (hits (report_results report)) d = 0 then None
                    else Some (utc_count (hits (report_results report)) d)))"
  proof (intro allI impI)
    fix report
    assume a: "fst (hunt_mitre_attack env technique_id time_range w) = Inr report
           \<and> list_all dated_as_written (hits (report_results report))"
    then have "fst (hunt_mitre_attack env technique_id time_range w) = Inr report" by simp
    then have c: "create_timeline (hits (report_results report)) = Inr (report_timeline report)"
      by (rule report_timeline_created)
    from a made[of "hits (report_results report)"] c
    show "distinct (map fst (report_timeline report))
         \<and> (\<forall>d. map_of (report_timeline report) d
                 = (if utc_count (hits (report_results report)) d = 0 then None
                    else Some (utc_count (hits (report_results report)) d)))"
      by auto
  qed
  have 3: "\<forall>timeline. create_timeline hs = Inr timeline \<longrightarrow>
         distinct (map fst timeline)
         \<and> (\<forall>d. map_of timeline d
                 = (if key_count hs d = 0 then None else Some (key_count hs d)))"
    using created_timeline_counts by blast
  have 4: "create_timeline
        [stamped ''2024-01-01T10:00:00Z'', stamped ''2024-01-01T10:00:00Z'',
         stamped ''2024-01-02T09:00:00Z'']
       = Inr [(''2024-01-01'', 2), (''2024-01-02'', 1)]"
    by (simp add: create_timeline_def stamped_def)
  have 5: "\<forall>h. utc_stamped h \<longrightarrow> dated_as_written h"
    by (simp add: utc_stamped_dated)
  have "utc_written ''2024-01-01T10:00:00Z''" "utc_written ''2024-01-02T09:00:00Z''"
    by code_simp+
  then have 6: "list_all utc_stamped
        [stamped ''2024-01-01T10:00:00Z'', stamped ''2024-01-01T10:00:00Z'',
         stamped ''2024-01-02T09:00:00Z'']"
    by (simp add: utc_stamped_def stamped_def)
  show ?thesis by (intro conjI) (rule 1 5 2 3 6 4)+
qed

lemma witness_stamps:
  "utc_written ''2024-03-05T08:00:00.250Z''"
  "utc_day ''2024-03-05T08:00:00.250Z'' = Some ''2024-03-05''"
  "utc_day ''2024-03-05T10:00:00+02:00'' = Some ''2024-03-05''"
  by code_simp+

theorem timeline_counts_witness:
  "list_all dated_as_written
     [stamped ''2024-03-05T08:00:00.250Z'', \<lparr>source = []\<rparr>, stamped ''2024-03-05T10:00:00+02:00'']
   \<and> (\<exists>timeline.
         create_timeline
           [stamped ''2024-03-05T08:00:00.250Z'', \<lparr>source = []\<rparr>,
            stamped ''2024-03-05T10:00:00+02:00''] = Inr timeline
         \<and> map_of timeline ''2024-03-05'' = Some 2
         \<and> map_of timeline ''2024-03-06'' = None)"
proof -
  let ?hs = "[stamped ''2024-03-05T08:00:00.250Z'', \<lparr>source = []\<rparr>,
              stamped ''2024-03-05T10:00:00+02:00'']"
  have ts: "list_all dated_as_written ?hs"
    by (simp add: dated_as_written_def text_stamped_def hit_utc_day_def date_key_def
        stamped_def witness_stamps)
  from timeline_counts[of ?hs, THEN conjunct1] ts
  obtain timeline where t: "create_timeline ?hs = Inr timeline"
    and c: "\<forall>d. map_of timeline d = (if utc_count ?hs d = 0 then None else Some (utc_count ?hs d))"
    by blast
  have "utc_count ?hs ''2024-03-05'' = 2" "utc_count ?hs ''2024-03-06'' = 0"
    by (simp_all add: utc_count_def hit_utc_day_def stamped_def witness_stamps)
  with c have "map_of timeline ''2024-03-05'' = Some 2" "map_of timeline ''2024-03-06'' = None"
    by simp_all
  with ts t show ?thesis by blast
qed

lemma offset_stamps:
  "utc_day ''2024-01-01T23:30:00-05:00'' = Some ''2024-01-02''"
  "utc_day ''2024-01-02T04:30:00Z'' = Some ''2024-01-02''"
  by code_simp+

text \<open>
  C8 as stated fails on a time stamp written with an offset: \<open>2024-01-01T23:30:00-05:00\<close>
  and \<open>2024-01-02T04:30:00Z\<close> are the same instant, on 2 January in UTC, and the timeline
  counts the first under 1 January.
\<close>

theorem timeline_offset_stamp:
  "hit_utc_day (stamped ''2024-01-01T23:30:00-05:00'') = Some ''2024-01-02''
   \<and> hit_utc_day (stamped ''2024-01-02T04:30:00Z'') = Some ''2024-01-02''
   \<and> create_timeline
        [stamped ''2024-01-01T23:30:00-05:00'', stamped ''2024-01-02T04:30:00Z'']
       = Inr [(''2024-01-01'', 1), (''2024-01-02'', 1)]"
  by (simp add: hit_utc_day_def create_timeline_def stamped_def offset_stamps)

subsection \<open>The prompt\<close>

lemma log_context_step:
  assumes "event_ok h"
  shows "log_context_loop render (h # rest) ctx =
           log_context_loop render rest (ctx @ entry_text render h)"
  using assms
  by (auto simp: event_ok_def entry_text_def timestamp_of_def message_of_def Let_def
      split: option.splits jval.splits)

lemma log_context_loop_concat:
  assumes "list_all event_ok hs"
  shows "log_context_loop render hs ctx = Inr (ctx @ concat (map (entry_text render) hs))"
  using assms
proof (induction hs arbitrary: ctx)
  case Nil
  show ?case by simp
next
  case (Cons h hs)
  then have "event_ok h" "list_all event_ok hs" by simp_all
  with Cons.IH[of "ctx @ entry_text render h"] show ?case
    by (simp add: log_context_step del: log_context_loop.simps)
qed

lemma log_context_step_fail:
  assumes "\<not> event_ok h"
  shows "log_context_loop render (h # rest) ctx = Inl AttributeError"
  using assms by (auto simp: event_ok_def Let_def split: option.splits jval.splits)

lemma log_context_success:
  assumes "log_context_loop render hs ctx = Inr out"
  shows "list_all event_ok hs"
  using assms
proof (induction hs arbitrary: ctx)
  case Nil
  show ?case by simp
next
  case (Cons h hs)
  have h: "event_ok h"
  proof (rule ccontr)
    assume "\<not> event_ok h"
    then have "log_context_loop render (h # hs) ctx = Inl AttributeError"
      by (rule log_context_step_fail)
    with Cons.prems show False by simp
  qed
  from Cons.prems have "log_context_loop render hs (ctx @ entry_text render h) = Inr out"
    unfolding log_context_step[OF h] .
  then have "list_all event_ok hs" by (rule Cons.IH)
  with h show ?case by simp
qed

text \<open>
  C7, as the code has it. When the field \<open>event\<close> of each of the first ten hits is absent
  or an object, the prompt is the template below, filled with the question and with the
  first 2000 characters of the context; every prompt built is of that form. The context
  is made of the entries of the first ten hits only (ten entries for a result of fifteen
  hits). The message of an entry is the field \<open>message\<close>, else the original event, else
  \<open>No message\<close>.
\<close>

theorem prompt_of_first_ten:
  assumes "expected =
     NL @ ''You are a cybersecurity expert analyzing SOC logs. Based on the following log data, answer the user''
        @ [CHR 0x27] @ ''s question.'' @ NL
     @ NL
     @ ''LOG DATA:'' @ NL
     @ take 2000 (context_of render result) @ ''  # Limit context length'' @ NL
     @ NL
     @ ''USER QUESTION: '' @ question @ NL
     @ NL
     @ ''Please provide:'' @ NL
     @ ''1. A clear analysis of the logs'' @ NL
     @ ''2. Any security concerns or patterns identified'' @ NL
     @ ''3. Recommended actions if applicable'' @ NL
     @ ''4. Risk assessment (Low/Medium/High)'' @ NL
     @ NL
     @ ''Keep your response focused and actionable for SOC analysts.'' @ NL"
  shows "(list_all event_ok (take 10 (hits result)) \<longrightarrow>
            analysis_prompt render (Inr result) question = Inr expected)
   \<and> (\<forall>prompt. analysis_prompt render (Inr result) question = Inr prompt \<longrightarrow> prompt = expected)
   \<and> context_of render result = concat (map (entry_text render) (take 10 (hits result)))
   \<and> (length (hits result) = 15 \<longrightarrow> length (take 10 (hits result)) = 10)
   \<and> (2000 < length (context_of render result) \<longrightarrow>
         length (take 2000 (context_of render result)) = 2000)
   \<and> (\<forall>h. map_of (source h) ''message'' = None \<and> map_of (source h) ''event'' = None
          \<longrightarrow> message_of h = JStr ''No message'')
   \<and> (\<forall>h ev. map_of (source h) ''message'' = None
          \<and> map_of (source h) ''event'' = Some (JObj ev) \<and> map_of ev ''original'' = None
          \<longrightarrow> message_of h = JStr ''No message'')
   \<and> (\<forall>h ev v. map_of (source h) ''message'' = None
          \<and> map_of (source h) ''event'' = Some (JObj ev) \<and> map_of ev ''original'' = Some v
          \<longrightarrow> message_of h = v)
   \<and> (\<forall>h m. map_of (source h) ''message'' = Some m \<longrightarrow> message_of h = m)"
proof -
  have e: "expected = prompt_text (take 2000 (context_of render result)) question"
    unfolding assms prompt_text_def by simp
  have 1: "analysis_prompt render (Inr result) question = Inr expected"
    if "list_all event_ok (take 10 (hits result))"
    using log_context_loop_concat[OF that, of render "[]"]
    by (simp add: analysis_prompt_def context_of_def e)
  have 2: "prompt = expected"
    if p: "analysis_prompt render (Inr result) question = Inr prompt" for prompt
  proof -
    from p obtain ctx where "log_context_loop render (take 10 (hits result)) [] = Inr ctx"
      by (auto simp: analysis_prompt_def split: sum.splits)
    then have "list_all event_ok (take 10 (hits result))" by (rule log_context_success)
    from 1[OF this] p show ?thesis by simp
  qed
  have 3: "length (hits result) = 15 \<longrightarrow> length (take 10 (hits result)) = 10"
    "2000 < length (context_of render result) \<longrightarrow>
       length (take 2000 (context_of render result)) = 2000"
    by simp_all
  have 4: "\<forall>h. map_of (source h) ''message'' = None \<and> map_of (source h) ''event'' = None
          \<longrightarrow> message_of h = JStr ''No message''"
    "\<forall>h ev. map_of (source h) ''message'' = None
          \<and> map_of (source h) ''event'' = Some (JObj ev) \<and> map_of ev ''original'' = None
          \<longrightarrow> message_of h = JStr ''No message''"
    "\<forall>h ev v. map_of (source h) ''message'' = None
          \<and> map_of (source h) ''event'' = Some (JObj ev) \<and> map_of ev ''original'' = Some v
          \<longrightarrow> message_of h = v"
    "\<forall>h m. map_of (source h) ''message'' = Some m \<longrightarrow> message_of h = m"
    by (simp_all add: message_of_def)
  have 5: "context_of render result = concat (map (entry_text render) (take 10 (hits result)))"
    by (simp add: context_of_def)
  from 1 have 6: "list_all event_ok (take 10 (hits result)) \<longrightarrow>
            analysis_prompt render (Inr result) question = Inr expected"
    by blast
  from 2 have 7: "\<forall>prompt. analysis_prompt render (Inr result) question = Inr prompt \<longrightarrow>
         prompt = expected"
    by blast
  show ?thesis
    by (intro conjI) (rule 6 7 5 3 4)+
qed

theorem prompt_of_first_ten_witness:
  "length (hits \<lparr>total_value = 15,
       hits = replicate 15
         \<lparr>source = [(''event'', JObj [(''original'', JStr (replicate 200 (CHR ''x'')))])]\<rparr>\<rparr>) = 15
   \<and> length (context_of (\<lambda>v. ''?'') \<lparr>total_value = 15,
       hits = replicate 15
         \<lparr>source = [(''event'', JObj [(''original'', JStr (replicate 200 (CHR ''x'')))])]\<rparr>\<rparr>) = 2210
   \<and> analysis_prompt (\<lambda>v. ''?'')
     (Inr \<lparr>total_value = 15,
       hits = replicate 15
         \<lparr>source = [(''event'', JObj [(''original'', JStr (replicate 200 (CHR ''x'')))])]\<rparr>\<rparr>)
     ''why?''
   = Inr (NL @ ''You are a cybersecurity expert analyzing SOC logs. Based on the following log data, answer the user''
        @ [CHR 0x27] @ ''s question.'' @ NL
     @ NL
     @ ''LOG DATA:'' @ NL
     @ take 2000 (concat (replicate 10
          (''Time: Unknown'' @ NL @ ''Log: '' @ replicate 200 (CHR ''x'') @ NL @ NL)))
     @ ''  # Limit context length'' @ NL
     @ NL
     @ ''USER QUESTION: '' @ ''why?'' @ NL
     @ NL
     @ ''Please provide:'' @ NL
     @ ''1. A clear analysis of the logs'' @ NL
     @ ''2. Any security concerns or patterns identified'' @ NL
     @ ''3. Recommended actions if applicable'' @ NL
     @ ''4. Risk assessment (Low/Medium/High)'' @ NL
     @ NL
     @ ''Keep your response focused and actionable for SOC analysts.'' @ NL)"
proof -
  let ?h = "\<lparr>source = [(''event'', JObj [(''original'', JStr (replicate 200 (CHR ''x'')))])]\<rparr>"
  let ?r = "\<lparr>total_value = 15, hits = replicate 15 ?h\<rparr>"
  let ?f = "\<lambda>v::jval. ''?''"
  have ok: "list_all event_ok (take 10 (hits ?r))"
    by (simp add: event_ok_def list_all_iff)
  have ctx: "context_of ?f ?r
      = concat (replicate 10 (''Time: Unknown'' @ NL @ ''Log: '' @ replicate 200 (CHR ''x'') @ NL @ NL))"
    by (simp add: context_of_def entry_text_def timestamp_of_def message_of_def)
  have len: "length (context_of ?f ?r) = 2210"
    unfolding ctx by (simp add: length_concat sum_list_replicate NL_def)
  from prompt_of_first_ten[where render = ?f and result = ?r and question = "''why?''",
      OF refl, THEN conjunct1] ok
  have "analysis_prompt ?f (Inr ?r) ''why?'' =
     Inr (NL @ ''You are a cybersecurity expert analyzing SOC logs. Based on the following log data, answer the user''
        @ [CHR 0x27] @ ''s question.'' @ NL
     @ NL
     @ ''LOG DATA:'' @ NL
     @ take 2000 (context_of ?f ?r) @ ''  # Limit context length'' @ NL
     @ NL
     @ ''USER QUESTION: '' @ ''why?'' @ NL
     @ NL
     @ ''Please provide:'' @ NL
     @ ''1. A clear analysis of the logs'' @ NL
     @ ''2. Any security concerns or patterns identified'' @ NL
     @ ''3. Recommended actions if applicable'' @ NL
     @ ''4. Risk assessment (Low/Medium/High)'' @ NL
     @ NL
     @ ''Keep your response focused and actionable for SOC analysts.'' @ NL)"
    by blast
  then show ?thesis unfolding ctx[symmetric] using len by simp
qed

text \<open>
  C7 as stated fails on a hit whose field \<open>event\<close> is no object: the default of the outer
  \<open>get\<close> is evaluated first and raises, even with the message present, and no prompt
  is built.
\<close>

theorem prompt_event_not_object:
  "message_of \<lparr>source = [(''message'', JStr ''hello''), (''event'', JStr ''login'')]\<rparr>
     = JStr ''hello''
   \<and> analysis_prompt (\<lambda>v. ''?'')
        (Inr \<lparr>total_value = 1,
              hits = [\<lparr>source = [(''message'', JStr ''hello''), (''event'', JStr ''login'')]\<rparr>]\<rparr>)
        ''why?''
      = Inl AttributeError"
  by (simp add: message_of_def analysis_prompt_def)

end
